theory Spec2Isabelle
  imports Complex_Main "HOL-Library.Multiset" "HOL-Library.Product_Lexorder"
begin

section \<open>OverlayLayer: the geometry store\<close>

text \<open>
  Geometries are JavaScript objects that the layer holds by reference and mutates
  (internal id, layer binding), so the model keeps them in an explicit store:
  a \<open>ref\<close> is the identity of a Geometry object, \<open>heap\<close> maps it to its fields.
  The layer's \<open>_geoList\<close> is a list of references and \<open>_geoMap\<close> a map from the
  property key to a reference. An external id that is a number is represented by the
  string it has as a property key; \<open>None\<close> is \<open>null\<close>/\<open>undefined\<close>.
  \<open>geoMap\<close> holds the object's own properties; a read also finds what the object
  inherits (see \<open>geoMap_read\<close>).
\<close>

type_synonym ref = nat

text \<open>
  Modelled from the spec: the Geometry class (\<open>getId\<close>, \<open>getZIndex\<close>,
  \<open>_getInternalId\<close>, \<open>_setInternalId\<close>, \<open>getLayer\<close>, \<open>_bindLayer\<close>) is not among the
  sources. Per the data model a geometry has an optional external id, an internal id
  assigned by the engine when it is bound, a numeric stacking key and the store it is
  bound to.
\<close>

record geometry =
  geoId :: "string option"
  internalId :: "nat option"
  zIndex :: int
  layer :: "nat option"

record world =
  heap :: "ref \<Rightarrow> geometry"
  uid :: nat
  self :: nat
  geoList :: "ref list"
  geoMap :: "string \<rightharpoonup> ref"
  clearing :: bool

datatype error =
    InvalidGeometry nat
  | DuplicateId string nat
  | TypeError

text \<open>
  Modelled from the spec: \<open>UID()\<close> of \<open>core/util\<close> is not among the sources;
  internal ids are "strictly increasing process-wide", a counter.
\<close>

definition UID :: "world \<Rightarrow> nat \<times> world" where
  "UID w = (uid w, w\<lparr>uid := uid w + 1\<rparr>)"

subsection \<open>Reading the id map\<close>

text \<open>
  \<open>_geoMap\<close> is created as \<open>{}\<close>, a plain object. Reading \<open>this._geoMap[k]\<close> gives
  the geometry stored under \<open>k\<close>, or else the member of that name that every plain
  object inherits from \<open>Object.prototype\<close> (a function, or the prototype itself for
  \<open>__proto__\<close>), or else \<open>undefined\<close>. The inherited names are the language's.
\<close>

definition object_prototype_names :: "string list" where
  "object_prototype_names =
     [''constructor'', ''toString'', ''toLocaleString'', ''valueOf'', ''hasOwnProperty'',
      ''isPrototypeOf'', ''propertyIsEnumerable'', ''__proto__'', ''__defineGetter__'',
      ''__defineSetter__'', ''__lookupGetter__'', ''__lookupSetter__'']"

definition inherited :: "string \<Rightarrow> bool" where
  "inherited k = (k \<in> set object_prototype_names)"

datatype slot = Absent | Member ref | Inherited

definition geoMap_read :: "world \<Rightarrow> string \<Rightarrow> slot" where
  "geoMap_read w k =
     (case geoMap w k of
        Some g \<Rightarrow> Member g
      | None \<Rightarrow> if inherited k then Inherited else Absent)"

subsection \<open>getGeometryById\<close>

text \<open>The result \<open>Absent\<close> is \<open>null\<close>; a geometry and an inherited member are truthy.\<close>

definition getGeometryById :: "world \<Rightarrow> string option \<Rightarrow> slot" where
  "getGeometryById w ident =
     (case ident of
        None \<Rightarrow> Absent
      | Some k \<Rightarrow>
          if k = [] then Absent
          else if geoMap_read w k = Absent then Absent
          else geoMap_read w k)"

subsection \<open>The comparator and the sort\<close>

text \<open>
  \<open>_compare\<close> subtracts numbers; an internal id that is \<open>undefined\<close> makes the
  difference \<open>NaN\<close>, which is \<open>None\<close> here.
\<close>

definition compare :: "geometry \<Rightarrow> geometry \<Rightarrow> int option" where
  "compare a b =
     (if zIndex a = zIndex b then
        (case (internalId a, internalId b) of
           (Some i, Some j) \<Rightarrow> Some (int i - int j)
         | _ \<Rightarrow> None)
      else Some (zIndex a - zIndex b))"

text \<open>
  \<open>Array.prototype.sort\<close> is the language's: a stable sort that reads only the sign of
  the comparator's result and takes \<open>NaN\<close> as \<open>+0\<close>. It is modelled as a stable
  insertion sort.
\<close>

definition sign_of :: "int option \<Rightarrow> int" where
  "sign_of c = (case c of None \<Rightarrow> 0 | Some v \<Rightarrow> v)"

fun insert_by :: "('a \<Rightarrow> 'a \<Rightarrow> int option) \<Rightarrow> 'a \<Rightarrow> 'a list \<Rightarrow> 'a list" where
  "insert_by cmp x [] = [x]"
| "insert_by cmp x (y # ys) =
     (if sign_of (cmp x y) \<le> 0 then x # y # ys else y # insert_by cmp x ys)"

definition array_sort :: "('a \<Rightarrow> 'a \<Rightarrow> int option) \<Rightarrow> 'a list \<Rightarrow> 'a list" where
  "array_sort cmp xs = foldr (insert_by cmp) xs []"

definition sortGeometries :: "world \<Rightarrow> world" where
  "sortGeometries w =
     w\<lparr>geoList := array_sort (\<lambda>a b. compare (heap w a) (heap w b)) (geoList w)\<rparr>"

subsection \<open>addGeometry\<close>

text \<open>
  The argument of \<open>addGeometry\<close>: nothing (a falsy value), one Geometry, or an array
  whose entries are Geometry objects or \<open>null\<close>/\<open>undefined\<close>. GeoJSON input, the
  \<open>fitView\<close> recentering and the notifications sent to listeners and to the renderer
  do not touch \<open>_geoList\<close> or \<open>_geoMap\<close> and are left out.
\<close>

datatype add_arg = Nothing | Single ref | Batch "ref option list"

text \<open>The body of the loop for an entry that passed both checks.\<close>

definition bindGeometry :: "ref \<Rightarrow> world \<Rightarrow> world" where
  "bindGeometry g w =
     (let (internal, w1) = UID w;
          w2 = w1\<lparr>heap := (heap w1)(g := (heap w1 g)\<lparr>internalId := Some internal\<rparr>)\<rparr>;
          w3 = w2\<lparr>geoList := geoList w2 @ [g]\<rparr>
      in w3\<lparr>heap := (heap w3)(g := (heap w3 g)\<lparr>layer := Some (self w3)\<rparr>)\<rparr>)"

text \<open>
  The \<open>for\<close> loop of \<open>addGeometry\<close>, from index \<open>i\<close>. A \<open>throw\<close> leaves the loop
  with the state as it is at that moment: \<open>Inl (e, w)\<close>.
\<close>

fun addGeometry_loop :: "nat \<Rightarrow> ref option list \<Rightarrow> world \<Rightarrow> (error \<times> world) + world" where
  "addGeometry_loop i [] w = Inr w"
| "addGeometry_loop i (None # gs) w = Inl (InvalidGeometry i, w)"
| "addGeometry_loop i (Some g # gs) w =
     (case geoId (heap w g) of
        None \<Rightarrow> addGeometry_loop (i + 1) gs (bindGeometry g w)
      | Some k \<Rightarrow>
          if geoMap_read w k \<noteq> Absent then Inl (DuplicateId k i, w)
          else
            addGeometry_loop (i + 1) gs
              (bindGeometry g (w\<lparr>geoMap := (geoMap w)(k \<mapsto> g)\<rparr>)))"

definition addGeometries :: "world \<Rightarrow> ref option list \<Rightarrow> (error \<times> world) + world" where
  "addGeometries w gs =
     (if gs = [] then Inr w
      else (case addGeometry_loop 0 gs w of
              Inl e \<Rightarrow> Inl e
            | Inr w' \<Rightarrow> Inr (sortGeometries w')))"

definition addGeometry :: "world \<Rightarrow> add_arg \<Rightarrow> (error \<times> world) + world" where
  "addGeometry w a =
     (case a of
        Nothing \<Rightarrow> Inr w
      | Single g \<Rightarrow> addGeometries w [Some g]
      | Batch gs \<Rightarrow> addGeometries w gs)"

text \<open>What the caller is left with, whether the call returned or threw.\<close>

definition world_after :: "(error \<times> world) + world \<Rightarrow> world" where
  "world_after r = (case r of Inl (e, w) \<Rightarrow> w | Inr w \<Rightarrow> w)"

definition thrown :: "(error \<times> world) + world \<Rightarrow> error option" where
  "thrown r = (case r of Inl (e, w) \<Rightarrow> Some e | Inr w \<Rightarrow> None)"

text \<open>
  A sequence of calls, as long as none throws; \<open>entries\<close> lists what a call was
  given, in order.
\<close>

fun addGeometry_calls :: "world \<Rightarrow> add_arg list \<Rightarrow> (error \<times> world) + world" where
  "addGeometry_calls w [] = Inr w"
| "addGeometry_calls w (a # rest) =
     (case addGeometry w a of
        Inl e \<Rightarrow> Inl e
      | Inr w' \<Rightarrow> addGeometry_calls w' rest)"

fun entries :: "add_arg \<Rightarrow> ref option list" where
  "entries Nothing = []"
| "entries (Single g) = [Some g]"
| "entries (Batch gs) = gs"

text \<open>
  \<open>before w a b\<close>: the comparator puts \<open>a\<close> strictly below \<open>b\<close>, by \<open>zIndex\<close> and
  then by internal id.
\<close>

definition before :: "world \<Rightarrow> ref \<Rightarrow> ref \<Rightarrow> bool" where
  "before w a b =
     (case compare (heap w a) (heap w b) of None \<Rightarrow> False | Some v \<Rightarrow> v < 0)"

text \<open>
  The internal id as a number, the pair the comparator orders by, and what a run of
  successful calls keeps true of the geometries \<open>ins\<close> added so far, listed in the
  order they were added: the list holds exactly them, each has an internal id below
  the counter, and the internal ids grow along \<open>ins\<close>.
\<close>

definition internal_of :: "world \<Rightarrow> ref \<Rightarrow> nat" where
  "internal_of w g = (case internalId (heap w g) of None \<Rightarrow> 0 | Some n \<Rightarrow> n)"

definition order_key :: "world \<Rightarrow> ref \<Rightarrow> int \<times> nat" where
  "order_key w g = (zIndex (heap w g), internal_of w g)"

definition added_in_order :: "world \<Rightarrow> ref list \<Rightarrow> bool" where
  "added_in_order w ins =
     (mset (geoList w) = mset ins
      \<and> (\<forall>g \<in> set ins. \<exists>n. internalId (heap w g) = Some n \<and> n < uid w)
      \<and> sorted_wrt (\<lambda>a b. internal_of w a < internal_of w b) ins)"

subsection \<open>Removal\<close>

definition gt0 :: "int option \<Rightarrow> bool" where
  "gt0 c = (case c of None \<Rightarrow> False | Some v \<Rightarrow> 0 < v)"

function findInList_loop :: "world \<Rightarrow> ref \<Rightarrow> int \<Rightarrow> int \<Rightarrow> int" where
  "findInList_loop w geo low high =
     (if low \<le> high then
        (let middle = (low + high) div 2 in
         if geoList w ! nat middle = geo then middle
         else if gt0 (compare (heap w (geoList w ! nat middle)) (heap w geo))
              then findInList_loop w geo low (middle - 1)
              else findInList_loop w geo (middle + 1) high)
      else - 1)"
  by pat_completeness auto
termination
  by (relation "measure (\<lambda>(w, geo, low, high). nat (high - low + 1))") auto

definition findInList :: "world \<Rightarrow> ref \<Rightarrow> int" where
  "findInList w geo =
     (let len = int (length (geoList w)) in
      if len = 0 then - 1 else findInList_loop w geo 0 (len - 1))"

text \<open>\<open>splice(idx, 1)\<close> for an index that is in range.\<close>

definition splice1 :: "nat \<Rightarrow> 'a list \<Rightarrow> 'a list" where
  "splice1 idx xs = take idx xs @ drop (idx + 1) xs"

definition onRemoveGeometry :: "world \<Rightarrow> ref option \<Rightarrow> world" where
  "onRemoveGeometry w geometry =
     (case geometry of
        None \<Rightarrow> w
      | Some g \<Rightarrow>
          if clearing w then w
          else if layer (heap w g) \<noteq> Some (self w) then w
          else if internalId (heap w g) = None then w
          else
            (let w1 = (case geoId (heap w g) of
                         None \<Rightarrow> w
                       | Some k \<Rightarrow> w\<lparr>geoMap := (geoMap w)(k := None)\<rparr>);
                 idx = findInList w1 g
             in if 0 \<le> idx then w1\<lparr>geoList := splice1 (nat idx) (geoList w1)\<rparr> else w1))"

text \<open>
  Modelled from the spec: \<open>Geometry.remove\<close> is not among the sources. A bound geometry
  "is unbound on removal (cleared from id map and sequence)": it hands itself to its
  layer's \<open>onRemoveGeometry\<close> and drops the binding. A layer other than this one is
  outside the state.
\<close>

definition geometry_remove :: "ref \<Rightarrow> world \<Rightarrow> world" where
  "geometry_remove g w =
     (case layer (heap w g) of
        None \<Rightarrow> w
      | Some l \<Rightarrow>
          (let w1 = (if l = self w then onRemoveGeometry w (Some g) else w)
           in w1\<lparr>heap := (heap w1)(g := (heap w1 g)\<lparr>layer := None\<rparr>)\<rparr>))"

datatype target = Geo ref | Id "string option"

text \<open>
  One round of the loop of \<open>removeGeometry\<close>. An id is looked up first; when the
  lookup gives an inherited member, that value has no \<open>getLayer\<close> and the call of it
  throws a TypeError.
\<close>

definition removeOne :: "target \<Rightarrow> world \<Rightarrow> (error \<times> world) + world" where
  "removeOne t w =
     (case (case t of Geo g \<Rightarrow> Member g | Id k \<Rightarrow> getGeometryById w k) of
        Absent \<Rightarrow> Inr w
      | Inherited \<Rightarrow> Inl (TypeError, w)
      | Member g \<Rightarrow>
          if layer (heap w g) \<noteq> Some (self w) then Inr w else Inr (geometry_remove g w))"

fun removeGeometry_loop :: "target list \<Rightarrow> world \<Rightarrow> (error \<times> world) + world" where
  "removeGeometry_loop [] w = Inr w"
| "removeGeometry_loop (t # ts) w =
     (case removeOne t w of
        Inl e \<Rightarrow> Inl e
      | Inr w' \<Rightarrow> removeGeometry_loop ts w')"

text \<open>The loop of \<open>removeGeometry\<close> runs from the last entry to the first.\<close>

definition removeGeometry :: "world \<Rightarrow> target list \<Rightarrow> (error \<times> world) + world" where
  "removeGeometry w ts = removeGeometry_loop (rev ts) w"

text \<open>No name the id map holds itself is an inherited one.\<close>

definition names_own :: "world \<Rightarrow> bool" where
  "names_own w = (\<forall>k. geoMap w k \<noteq> None \<longrightarrow> \<not> inherited k)"

subsection \<open>forEach and clear\<close>

text \<open>
  A callback receives the geometry and its index and may do anything to the store,
  or throw. \<open>forEach\<close> walks the copy \<open>copyOnWrite\<close> of \<open>_geoList\<close>; the second
  component of the result lists the calls made, in order.
\<close>

type_synonym callback = "ref \<Rightarrow> nat \<Rightarrow> world \<Rightarrow> (error \<times> world) + world"

fun forEach_loop ::
  "callback \<Rightarrow> ref list \<Rightarrow> nat \<Rightarrow> world \<Rightarrow> (ref \<times> nat) list
     \<Rightarrow> ((error \<times> world) + world) \<times> (ref \<times> nat) list" where
  "forEach_loop fn [] i w visited = (Inr w, visited)"
| "forEach_loop fn (g # rest) i w visited =
     (case fn g i w of
        Inl e \<Rightarrow> (Inl e, visited @ [(g, i)])
      | Inr w' \<Rightarrow> forEach_loop fn rest (i + 1) w' (visited @ [(g, i)]))"

definition forEach :: "world \<Rightarrow> callback \<Rightarrow> ((error \<times> world) + world) \<times> (ref \<times> nat) list" where
  "forEach w fn = (let copyOnWrite = geoList w in forEach_loop fn copyOnWrite 0 w [])"

definition clear :: "world \<Rightarrow> world" where
  "clear w =
     (let w1 = w\<lparr>clearing := True\<rparr>;
          w2 = world_after (fst (forEach w1 (\<lambda>geo i s. Inr (geometry_remove geo s))))
      in w2\<lparr>geoMap := Map.empty, geoList := [], clearing := False\<rparr>)"

subsection \<open>identify\<close>

text \<open>
  The map's projections and the Geometry and Painter methods that \<open>identify\<close> calls are
  not among the sources; they are parameters, gathered in one record. \<open>getContainerExtent\<close> gives the extent
  as its \<open>contains\<close> test, \<open>None\<close> when the painter has no extent; \<open>isArrowLine\<close> is
  \<open>geo instanceof LineString && geo._getArrowStyle()\<close>.
\<close>

record ('c, 'p) viewport =
  coordinateToPoint :: "'c \<Rightarrow> 'p"
  pointToContainerPoint :: "'p \<Rightarrow> 'p"
  isVisible :: "ref \<Rightarrow> bool"
  getPainter :: "ref \<Rightarrow> bool"
  isArrowLine :: "ref \<Rightarrow> bool"
  getContainerExtent :: "ref \<Rightarrow> ('p \<Rightarrow> bool) option"
  containsPoint :: "ref \<Rightarrow> 'p \<Rightarrow> bool"

record identify_options =
  opt_filter :: "(ref \<Rightarrow> bool) option"
  opt_count :: "int option"

text \<open>\<open>options['count']\<close> is truthy and \<open>hits.length >= options['count']\<close>.\<close>

definition count_reached :: "identify_options \<Rightarrow> ref list \<Rightarrow> bool" where
  "count_reached options hits =
     (case opt_count options of
        None \<Rightarrow> False
      | Some c \<Rightarrow> c \<noteq> 0 \<and> c \<le> int (length hits))"

text \<open>
  The loop of \<open>identify\<close> over the geometries still to visit (the list reversed, since
  \<open>i\<close> counts down). \<open>asked\<close> collects the geometries the filter was called with.
\<close>

fun identify_loop ::
  "('c, 'p) viewport \<Rightarrow> identify_options \<Rightarrow> 'p \<Rightarrow> 'p \<Rightarrow> ref list \<Rightarrow> ref list \<Rightarrow> ref list
     \<Rightarrow> ref list \<times> ref list" where
  "identify_loop v options point cp [] hits asked = (hits, asked)"
| "identify_loop v options point cp (geo # rest) hits asked =
     (if \<not> isVisible v geo \<or> \<not> getPainter v geo then
        identify_loop v options point cp rest hits asked
      else if \<not> isArrowLine v geo
              \<and> (case getContainerExtent v geo of None \<Rightarrow> True | Some extent \<Rightarrow> \<not> extent cp) then
        identify_loop v options point cp rest hits asked
      else if \<not> containsPoint v geo point then
        identify_loop v options point cp rest hits asked
      else
        (case opt_filter options of
           None \<Rightarrow>
             (if count_reached options (hits @ [geo]) then (hits @ [geo], asked)
              else identify_loop v options point cp rest (hits @ [geo]) asked)
         | Some f \<Rightarrow>
             (if f geo then
                (if count_reached options (hits @ [geo]) then (hits @ [geo], asked @ [geo])
                 else identify_loop v options point cp rest (hits @ [geo]) (asked @ [geo]))
              else identify_loop v options point cp rest hits (asked @ [geo]))))"

definition identify_trace ::
  "world \<Rightarrow> ('c, 'p) viewport \<Rightarrow> 'c \<Rightarrow> identify_options \<Rightarrow> ref list \<times> ref list" where
  "identify_trace w v coordinate options =
     (let point = coordinateToPoint v coordinate;
          cp = pointToContainerPoint v point
      in identify_loop v options point cp (rev (geoList w)) [] [])"

definition identify_hits ::
  "world \<Rightarrow> ('c, 'p) viewport \<Rightarrow> 'c \<Rightarrow> identify_options \<Rightarrow> ref list" where
  "identify_hits w v coordinate options = fst (identify_trace w v coordinate options)"

text \<open>
  \<open>identify\<close>. \<open>getMap()\<close> is \<open>null\<close> for a layer that is on no map, and the call
  \<open>map.coordinateToPoint\<close> then throws a TypeError; \<open>on_map\<close> is \<open>None\<close> for such
  a layer.
\<close>

definition identify ::
  "world \<Rightarrow> ('c, 'p) viewport option \<Rightarrow> 'c \<Rightarrow> identify_options \<Rightarrow> error + ref list" where
  "identify w on_map coordinate options =
     (case on_map of
        None \<Rightarrow> Inl TypeError
      | Some v \<Rightarrow> Inr (identify_hits w v coordinate options))"

text \<open>The test a geometry has to pass to be a hit.\<close>

definition passes :: "('c, 'p) viewport \<Rightarrow> identify_options \<Rightarrow> 'p \<Rightarrow> 'p \<Rightarrow> ref \<Rightarrow> bool" where
  "passes v options point cp geo =
     (isVisible v geo \<and> getPainter v geo
      \<and> (isArrowLine v geo
         \<or> (case getContainerExtent v geo of None \<Rightarrow> False | Some extent \<Rightarrow> extent cp))
      \<and> containsPoint v geo point
      \<and> (case opt_filter options of None \<Rightarrow> True | Some f \<Rightarrow> f geo))"

definition is_hit :: "('c, 'p) viewport \<Rightarrow> identify_options \<Rightarrow> 'c \<Rightarrow> ref \<Rightarrow> bool" where
  "is_hit v options coordinate geo =
     (let point = coordinateToPoint v coordinate;
          cp = pointToContainerPoint v point
      in passes v options point cp geo)"

text \<open>
  What the count does to the list of all hits: no count, or 0, keeps it whole; a
  positive count keeps that many; a negative count is truthy and already reached
  after the first hit.
\<close>

definition capped :: "identify_options \<Rightarrow> 'a list \<Rightarrow> 'a list" where
  "capped options xs =
     (case opt_count options of
        None \<Rightarrow> xs
      | Some n \<Rightarrow> if n = 0 then xs else if n < 0 then take 1 xs else take (nat n) xs)"

subsection \<open>A fresh layer and some geometries\<close>

text \<open>A geometry as it is created, bound to nothing; a layer after its constructor.\<close>

definition new_geometry :: "string option \<Rightarrow> int \<Rightarrow> geometry" where
  "new_geometry ident z = \<lparr>geoId = ident, internalId = None, zIndex = z, layer = None\<rparr>"

definition new_layer :: "(ref \<Rightarrow> geometry) \<Rightarrow> world" where
  "new_layer h =
     \<lparr>heap = h, uid = 0, self = 0, geoList = [], geoMap = Map.empty, clearing = False\<rparr>"

text \<open>
  Objects 0, 1, 2 are A (z = 0, id a), B (z = 5, id b), C (z = 0, id c) of the spec's
  first example; object 3 carries the id a again, object 4 the empty string as id,
  the rest have no id.
\<close>

definition example_heap :: "ref \<Rightarrow> geometry" where
  "example_heap r =
     (if r = 0 then new_geometry (Some ''a'') 0
      else if r = 1 then new_geometry (Some ''b'') 5
      else if r = 2 then new_geometry (Some ''c'') 0
      else if r = 3 then new_geometry (Some ''a'') 0
      else if r = 4 then new_geometry (Some []) 0
      else new_geometry None 0)"

text \<open>The layer holding A; holding B; and after A, B and C were added one by one.\<close>

definition layer_a :: world where
  "layer_a = world_after (addGeometry (new_layer example_heap) (Single 0))"

definition layer_b :: world where
  "layer_b = world_after (addGeometry (new_layer example_heap) (Single 1))"

definition layer_abc :: world where
  "layer_abc =
     world_after (addGeometry_calls (new_layer example_heap) [Single 0, Single 1, Single 2])"

text \<open>The layer holding A once the loop of a later call has taken B as well, unsorted.\<close>

definition layer_a_b :: world where
  "layer_a_b = world_after (addGeometry_loop 0 [Some 1] layer_a)"

text \<open>The layer holding B after a batch of A and a second geometry with id a has thrown.\<close>

definition layer_b_a :: world where
  "layer_b_a = world_after (addGeometry layer_b (Batch [Some 0, Some 3]))"

definition open_viewport :: "(nat, nat) viewport" where
  "open_viewport =
     \<lparr>coordinateToPoint = (\<lambda>c. c), pointToContainerPoint = (\<lambda>p. p),
      isVisible = (\<lambda>g. True), getPainter = (\<lambda>g. True), isArrowLine = (\<lambda>g. False),
      getContainerExtent = (\<lambda>g. Some (\<lambda>p. True)), containsPoint = (\<lambda>g p. True)\<rparr>"

definition all_hits :: identify_options where
  "all_hits = \<lparr>opt_filter = None, opt_count = None\<rparr>"

definition one_filtered_hit :: identify_options where
  "one_filtered_hit = \<lparr>opt_filter = Some (\<lambda>g. g \<noteq> 1), opt_count = Some 1\<rparr>"

section \<open>TextMarkerSymbolizer\<close>

text \<open>
  A style value: \<open>undefined\<close>, \<open>null\<close>, a (whole) number, a string, a boolean, or a
  computed expression (a function definition). A symbol or a style is the list of
  its own properties in the order they were written, as \<open>for ... in\<close> walks them.
\<close>

datatype jsval = Undefined | Null | Num int | Str string | Bool bool | Expression

type_synonym symbol = "(string \<times> jsval) list"

definition property :: "symbol \<Rightarrow> string \<Rightarrow> jsval" where
  "property s p = (case map_of s p of None \<Rightarrow> Undefined | Some v \<Rightarrow> v)"

text \<open>
  Modelled from the spec: \<open>isNil\<close> and \<open>getValueOrDefault\<close> of \<open>core/util\<close> are not
  among the sources; a default applies "when the raw value is absent or nullish".
\<close>

definition isNil :: "jsval \<Rightarrow> bool" where
  "isNil v = (v = Undefined \<or> v = Null)"

definition getValueOrDefault :: "jsval \<Rightarrow> jsval \<Rightarrow> jsval" where
  "getValueOrDefault v d = (if isNil v then d else v)"

text \<open>
  Modelled from the spec: \<open>hasFunctionDefinition\<close> of \<open>core/mapbox\<close> is not among the
  sources; a symbol is dynamic when "any property is a computed expression".
\<close>

definition hasFunctionDefinition :: "symbol \<Rightarrow> bool" where
  "hasFunctionDefinition s = list_ex (\<lambda>(p, v). v = Expression) s"

definition translate :: "symbol \<Rightarrow> symbol" where
  "translate s =
     [(''textName'', property s ''textName''),
      (''textFaceName'', getValueOrDefault (property s ''textFaceName'') (Str ''monospace'')),
      (''textWeight'', getValueOrDefault (property s ''textWeight'') (Str ''normal'')),
      (''textStyle'', getValueOrDefault (property s ''textStyle'') (Str ''normal'')),
      (''textSize'', getValueOrDefault (property s ''textSize'') (Num 10)),
      (''textFont'', getValueOrDefault (property s ''textFont'') Null),
      (''textFill'', getValueOrDefault (property s ''textFill'') (Str ''#000'')),
      (''textOpacity'', getValueOrDefault (property s ''textOpacity'') (Num 1)),
      (''textHaloFill'', getValueOrDefault (property s ''textHaloFill'') (Str ''#ffffff'')),
      (''textHaloRadius'', getValueOrDefault (property s ''textHaloRadius'') (Num 0)),
      (''textHaloOpacity'', getValueOrDefault (property s ''textHaloOpacity'') (Num 1)),
      (''textWrapWidth'', getValueOrDefault (property s ''textWrapWidth'') Null),
      (''textWrapBefore'', getValueOrDefault (property s ''textWrapBefore'') (Bool False)),
      (''textWrapCharacter'', getValueOrDefault (property s ''textWrapCharacter'') (Str [CHR 0x0A])),
      (''textLineSpacing'', getValueOrDefault (property s ''textLineSpacing'') (Num 0)),
      (''textDx'', getValueOrDefault (property s ''textDx'') (Num 0)),
      (''textDy'', getValueOrDefault (property s ''textDy'') (Num 0)),
      (''textHorizontalAlignment'',
         getValueOrDefault (property s ''textHorizontalAlignment'') (Str ''middle'')),
      (''textVerticalAlignment'',
         getValueOrDefault (property s ''textVerticalAlignment'') (Str ''middle'')),
      (''textAlign'', getValueOrDefault (property s ''textAlign'') (Str ''center''))]"


subsection \<open>The cache key\<close>

text \<open>String concatenation turns a value into text as the language does.\<close>

definition digit_char :: "nat \<Rightarrow> char" where
  "digit_char d = char_of (48 + d)"

function show_nat :: "nat \<Rightarrow> string" where
  "show_nat n = (if n < 10 then [digit_char n] else show_nat (n div 10) @ [digit_char (n mod 10)])"
  by pat_completeness auto
termination
  by (relation "measure (\<lambda>n. n)") auto

text \<open>Reading the digits back: different numbers print differently.\<close>

definition read_nat :: "string \<Rightarrow> nat" where
  "read_nat s = foldl (\<lambda>acc ch. 10 * acc + (of_char ch - 48)) 0 s"

definition show_int :: "int \<Rightarrow> string" where
  "show_int i = (if i < 0 then CHR ''-'' # show_nat (nat (- i)) else show_nat (nat i))"

fun to_string :: "jsval \<Rightarrow> string" where
  "to_string Undefined = ''undefined''"
| "to_string Null = ''null''"
| "to_string (Num n) = show_int n"
| "to_string (Str s) = s"
| "to_string (Bool b) = (if b then ''true'' else ''false'')"
| "to_string Expression = ''[object Object]''"

fun join :: "string \<Rightarrow> string list \<Rightarrow> string" where
  "join sep [] = []"
| "join sep [x] = x"
| "join sep (x # y # ys) = x @ sep @ join sep (y # ys)"

definition genCacheKey :: "string \<Rightarrow> symbol \<Rightarrow> string" where
  "genCacheKey textContent style =
     join ''-''
       (textContent #
        map (\<lambda>(p, v). p @ ''='' @ to_string v)
          (filter (\<lambda>(p, v). 4 < length p \<and> take 4 p = ''text'') style))"

subsection \<open>The symbolizer and its geometry's cache\<close>

text \<open>
  What the symbolizer uses and the sources do not hold: the constant \<open>IS_NODE\<close>,
  \<open>_defineStyle\<close> of the base class, \<open>replaceVariable\<close> and \<open>splitTextToRow\<close> of
  \<open>core/util/strings\<close>. They are parameters; \<open>'d\<close> is the type of a text descriptor,
  \<open>'props\<close> of a geometry's properties.
\<close>

record ('props, 'd) text_env =
  IS_NODE :: bool
  defineStyle :: "symbol \<Rightarrow> symbol"
  replaceVariable :: "jsval \<Rightarrow> 'props \<Rightarrow> string"
  splitTextToRow :: "string \<Rightarrow> symbol \<Rightarrow> 'd"

text \<open>
  The fields of the symbolizer, and of its geometry the properties and the cache
  object \<open>geometry[CACHE_KEY]\<close> (\<open>None\<close> until it is created). \<open>layouts\<close> counts
  the calls of \<open>splitTextToRow\<close>, which makes a recomputation visible.
\<close>

record ('props, 'd) text_symbolizer =
  symbol :: symbol
  dynamic :: bool
  style :: symbol
  cacheKey :: "string option"
  textDesc :: "'d option"
  properties :: 'props
  text_cache :: "(string \<rightharpoonup> 'd) option"
  layouts :: nat

text \<open>A property name that is \<open>undefined\<close> reads as the key \<open>undefined\<close>.\<close>

definition key_of :: "string option \<Rightarrow> string" where
  "key_of k = (case k of None \<Rightarrow> ''undefined'' | Some s \<Rightarrow> s)"

definition storeToCache ::
  "('props, 'd) text_env \<Rightarrow> ('props, 'd) text_symbolizer \<Rightarrow> 'd \<Rightarrow> ('props, 'd) text_symbolizer" where
  "storeToCache env st desc =
     (if IS_NODE env then st
      else
        (let cache = (case text_cache st of None \<Rightarrow> Map.empty | Some c \<Rightarrow> c)
         in st\<lparr>text_cache := Some (cache(key_of (cacheKey st) \<mapsto> desc))\<rparr>))"

definition loadFromCache :: "('props, 'd) text_symbolizer \<Rightarrow> 'd option" where
  "loadFromCache st =
     (case text_cache st of None \<Rightarrow> None | Some c \<Rightarrow> c (key_of (cacheKey st)))"

definition descText ::
  "('props, 'd) text_env \<Rightarrow> ('props, 'd) text_symbolizer \<Rightarrow> string \<Rightarrow> ('props, 'd) text_symbolizer" where
  "descText env st textContent =
     (if dynamic st then
        st\<lparr>textDesc := Some (splitTextToRow env textContent (style st)),
           layouts := layouts st + 1\<rparr>
      else
        (let st1 = st\<lparr>textDesc := loadFromCache st\<rparr>
         in case textDesc st1 of
              Some d \<Rightarrow> st1
            | None \<Rightarrow>
                (let d = splitTextToRow env textContent (style st1);
                     st2 = st1\<lparr>textDesc := Some d, layouts := layouts st1 + 1\<rparr>
                 in storeToCache env st2 d)))"

text \<open>
  The constructor, given the geometry's properties and cache and the count of layouts
  so far.
\<close>

definition new_text_symbolizer ::
  "('props, 'd) text_env \<Rightarrow> symbol \<Rightarrow> 'props \<Rightarrow> (string \<rightharpoonup> 'd) option \<Rightarrow> nat
     \<Rightarrow> ('props, 'd) text_symbolizer" where
  "new_text_symbolizer env raw props cache n =
     (let dyn = hasFunctionDefinition raw;
          sty = defineStyle env (translate raw);
          textContent = replaceVariable env (property sty ''textName'') props;
          st = \<lparr>symbol = raw, dynamic = dyn, style = sty,
                cacheKey = (if \<not> dyn then Some (genCacheKey textContent sty) else None),
                textDesc = None, properties = props, text_cache = cache, layouts = n\<rparr>
      in descText env st textContent)"

text \<open>
  The layout step of \<open>symbolize\<close>; the drawing that follows it does not touch the
  cache. \<open>cookedPoints\<close> is the number of container points to draw at.
\<close>

definition text_symbolize ::
  "('props, 'd) text_env \<Rightarrow> nat \<Rightarrow> ('props, 'd) text_symbolizer \<Rightarrow> ('props, 'd) text_symbolizer" where
  "text_symbolize env cookedPoints st =
     (if property (style st) ''textSize'' = Num 0 \<or> property (style st) ''textOpacity'' = Num 0 then st
      else if cookedPoints = 0 then st
      else descText env st (replaceVariable env (property (style st) ''textName'') (properties st)))"

definition cached :: "('props, 'd) text_symbolizer \<Rightarrow> string \<Rightarrow> 'd option" where
  "cached st k = (case text_cache st of None \<Rightarrow> None | Some c \<Rightarrow> c k)"

text \<open>
  An environment in the browser and one under Node: styles of literals are left as
  they are, the text is the name itself, and the descriptor records the text and the
  size it was laid out with.
\<close>

definition browser_env :: "(unit, string \<times> jsval) text_env" where
  "browser_env =
     \<lparr>IS_NODE = False, defineStyle = (\<lambda>s. s),
      replaceVariable = (\<lambda>v p. to_string v),
      splitTextToRow = (\<lambda>t s. (t, property s ''textSize''))\<rparr>"

definition node_env :: "(unit, string \<times> jsval) text_env" where
  "node_env = browser_env\<lparr>IS_NODE := True\<rparr>"

text \<open>
  The symbol \<open>{textName: 'Hi'}\<close>; its symbolizer after construction; a second one on
  the same geometry with \<open>textSize\<close> 12; and one whose text is a computed expression.
\<close>

definition hi_symbol :: symbol where
  "hi_symbol = [(''textName'', Str ''Hi'')]"

definition hi_drawn :: "(unit, string \<times> jsval) text_symbolizer" where
  "hi_drawn = new_text_symbolizer browser_env hi_symbol () None 0"

definition hi_resized :: "(unit, string \<times> jsval) text_symbolizer" where
  "hi_resized =
     new_text_symbolizer browser_env ((''textSize'', Num 12) # hi_symbol) ()
       (text_cache hi_drawn) (layouts hi_drawn)"

definition computed_drawn :: "(unit, string \<times> jsval) text_symbolizer" where
  "computed_drawn = new_text_symbolizer browser_env [(''textName'', Expression)] () None 0"

definition hi_node :: "(unit, string \<times> jsval) text_symbolizer" where
  "hi_node = new_text_symbolizer node_env hi_symbol () None 0"

section \<open>ImageMarkerSymbolizer\<close>

text \<open>
  The drawing context: \<open>globalAlpha\<close>, the stack that \<open>save\<close> pushes it on and
  \<open>restore\<close> pops it from, and the images drawn so far, each with the alpha in
  force when it was drawn and its x, y, width and height. Numbers are reals.
\<close>

record ctx =
  globalAlpha :: real
  saved :: "real list"
  images :: "(real \<times> real \<times> real \<times> real \<times> real) list"

definition ctx_save :: "ctx \<Rightarrow> ctx" where
  "ctx_save c = c\<lparr>saved := globalAlpha c # saved c\<rparr>"

definition ctx_restore :: "ctx \<Rightarrow> ctx" where
  "ctx_restore c =
     (case saved c of [] \<Rightarrow> c | a # rest \<Rightarrow> c\<lparr>globalAlpha := a, saved := rest\<rparr>)"

text \<open>
  Modelled from the spec: \<open>Canvas.image\<close> of \<open>core/Canvas\<close> is not among the sources;
  it is the surface's "image-blit(img,x,y,w,h)".
\<close>

definition canvas_image :: "ctx \<Rightarrow> real \<Rightarrow> real \<Rightarrow> real \<Rightarrow> real \<Rightarrow> ctx" where
  "canvas_image c x y w h = c\<lparr>images := images c @ [(globalAlpha c, x, y, w, h)]\<rparr>"

text \<open>
  A style value that \<open>isNumber\<close> accepts is \<open>Some\<close> number; anything else is \<open>None\<close>.
  \<open>isPath\<close> is \<open>symbol['markerType'] === 'path'\<close>, \<open>getRotationAt\<close> the rotation at a
  point's index, \<open>getDxDy\<close> the pixel offset.
\<close>

record marker_style =
  markerWidth :: "real option"
  markerHeight :: "real option"
  markerOpacity :: "real option"

record image =
  width :: real
  height :: real

record marker_symbolizer =
  marker_style :: marker_style
  isPath :: bool
  getRotationAt :: "nat \<Rightarrow> real option"
  getDxDy :: "real \<times> real"

text \<open>
  Modelled from the spec: \<open>_rotate\<close> of PointSymbolizer is not among the sources; "if
  a rotation is specified, establish a local rotated frame around the anchor and
  restore it after drawing this instance". The frame is opened by \<open>save\<close>; the point
  to draw at is then the offset.
\<close>

definition rotate_ctx ::
  "marker_symbolizer \<Rightarrow> ctx \<Rightarrow> real \<times> real \<Rightarrow> real option \<Rightarrow> (real \<times> real) option \<times> ctx" where
  "rotate_ctx m c p rotation =
     (case rotation of None \<Rightarrow> (None, c) | Some r \<Rightarrow> (Some (getDxDy m), ctx_save c))"

text \<open>The \<open>for\<close> loop over the container points, from index \<open>i\<close>.\<close>

fun draw_points ::
  "marker_symbolizer \<Rightarrow> real \<Rightarrow> real \<Rightarrow> nat \<Rightarrow> (real \<times> real) list \<Rightarrow> ctx \<Rightarrow> ctx" where
  "draw_points m w h i [] c = c"
| "draw_points m w h i (p # ps) c =
     (case rotate_ctx m c p (getRotationAt m i) of
        (None, c1) \<Rightarrow>
          draw_points m w h (i + 1) ps (canvas_image c1 (fst p - w / 2) (snd p - h) w h)
      | (Some origin, c1) \<Rightarrow>
          draw_points m w h (i + 1) ps
            (ctx_restore (canvas_image c1 (fst origin - w / 2) (snd origin - h) w h)))"

text \<open>
  \<open>symbolize\<close>. \<open>_prepareContext\<close> of the base class is not among the sources and is
  the parameter \<open>prepareContext\<close>; \<open>cookedPoints\<close> are the container points and
  \<open>img\<close> is what \<open>_getImage\<close> found. The result is the context and the style, which
  takes the image's size when it had none. The resource cache and the painter's
  cache are left out.
\<close>

definition draws :: "marker_symbolizer \<Rightarrow> (real \<times> real) list \<Rightarrow> image option \<Rightarrow> bool" where
  "draws m cookedPoints img =
     (\<not> (markerWidth (marker_style m) = Some 0 \<or> markerHeight (marker_style m) = Some 0
          \<or> markerOpacity (marker_style m) = Some 0)
      \<and> cookedPoints \<noteq> [] \<and> img \<noteq> None)"

definition scales :: "marker_symbolizer \<Rightarrow> bool" where
  "scales m =
     (\<not> isPath m
      \<and> (case markerOpacity (marker_style m) of None \<Rightarrow> False | Some opacity \<Rightarrow> opacity < 1))"

definition symbolize ::
  "(ctx \<Rightarrow> ctx) \<Rightarrow> marker_symbolizer \<Rightarrow> (real \<times> real) list \<Rightarrow> image option \<Rightarrow> ctx
     \<Rightarrow> ctx \<times> marker_style" where
  "symbolize prepareContext m cookedPoints img c =
     (let style = marker_style m in
      if markerWidth style = Some 0 \<or> markerHeight style = Some 0 \<or> markerOpacity style = Some 0
      then (c, style)
      else if cookedPoints = [] then (c, style)
      else
        (case img of
           None \<Rightarrow> (c, style)
         | Some im \<Rightarrow>
             (let c1 = prepareContext c;
                  (w, h, style1) =
                    (case (markerWidth style, markerHeight style) of
                       (Some w0, Some h0) \<Rightarrow> (w0, h0, style)
                     | _ \<Rightarrow>
                         (width im, height im,
                          style\<lparr>markerWidth := Some (width im), markerHeight := Some (height im)\<rparr>));
                  (alpha, c2) =
                    (if \<not> isPath m
                        \<and> (case markerOpacity style1 of None \<Rightarrow> False | Some opacity \<Rightarrow> opacity < 1)
                     then (Some (globalAlpha c1),
                           c1\<lparr>globalAlpha :=
                                globalAlpha c1
                                * (case markerOpacity style1 of None \<Rightarrow> 1 | Some opacity \<Rightarrow> opacity)\<rparr>)
                     else (None, c1));
                  c3 = draw_points m w h 0 cookedPoints c2;
                  c4 = (case alpha of None \<Rightarrow> c3 | Some a \<Rightarrow> c3\<lparr>globalAlpha := a\<rparr>)
              in (c4, style1))))"

text \<open>A half-transparent marker, rotated at its second point, and a context.\<close>

definition half_marker :: marker_symbolizer where
  "half_marker =
     \<lparr>marker_style = \<lparr>markerWidth = None, markerHeight = None, markerOpacity = Some (1 / 2)\<rparr>,
      isPath = False,
      getRotationAt = (\<lambda>i. if i = 1 then Some 90 else None),
      getDxDy = (0, 0)\<rparr>"

definition plain_ctx :: ctx where
  "plain_ctx = \<lparr>globalAlpha = 1, saved = [], images = []\<rparr>"

text \<open>A context at alpha 4/5, and a \<open>_prepareContext\<close> that sets the alpha to 1.\<close>

definition faded_ctx :: ctx where
  "faded_ctx = \<lparr>globalAlpha = 4 / 5, saved = [], images = []\<rparr>"

definition reset_alpha :: "ctx \<Rightarrow> ctx" where
  "reset_alpha c = c\<lparr>globalAlpha := 1\<rparr>"

section \<open>Properties of the geometry store\<close>

lemmas store_defs = addGeometry_def addGeometries_def bindGeometry_def UID_def
  sortGeometries_def world_after_def thrown_def new_layer_def example_heap_def
  new_geometry_def array_sort_def compare_def sign_of_def geoMap_read_def inherited_def
  object_prototype_names_def

lemma returned: "thrown r = None \<Longrightarrow> r = Inr (world_after r)"
  by (cases r) (auto simp: thrown_def world_after_def)

lemma geoList_layer_abc: "geoList layer_abc = [0, 2, 1]"
  by (simp add: layer_abc_def store_defs)

subsection \<open>The sort\<close>

lemma mset_insert_by: "mset (insert_by cmp x ys) = add_mset x (mset ys)"
  by (induction ys) auto

lemma mset_array_sort: "mset (array_sort cmp xs) = mset xs"
  by (induction xs) (auto simp: array_sort_def mset_insert_by)

lemma set_insert_by: "set (insert_by cmp x ys) = insert x (set ys)"
  using mset_insert_by [of cmp x ys] by (metis set_mset_mset set_mset_add_mset_insert)

lemma sorted_insert_by:
  fixes key :: "'a \<Rightarrow> 'k::linorder"
  assumes agree: "\<And>a b. a \<in> S \<Longrightarrow> b \<in> S \<Longrightarrow> (sign_of (cmp a b) \<le> 0) = (key a \<le> key b)"
    and "x \<in> S" "set ys \<subseteq> S" "sorted (map key ys)"
  shows "sorted (map key (insert_by cmp x ys))"
  using assms(2-)
proof (induction ys)
  case Nil
  show ?case by simp
next
  case (Cons y ys)
  show ?case
  proof (cases "sign_of (cmp x y) \<le> 0")
    case True
    then have "key x \<le> key y" using agree Cons.prems by simp
    then show ?thesis using True Cons.prems by auto
  next
    case False
    then have "key y \<le> key x" using agree [of x y] Cons.prems by auto
    then show ?thesis
      using False Cons by (auto simp: set_insert_by)
  qed
qed

lemma sorted_array_sort:
  fixes key :: "'a \<Rightarrow> 'k::linorder"
  assumes agree: "\<And>a b. a \<in> S \<Longrightarrow> b \<in> S \<Longrightarrow> (sign_of (cmp a b) \<le> 0) = (key a \<le> key b)"
    and "set xs \<subseteq> S"
  shows "sorted (map key (array_sort cmp xs))"
  using assms(2)
proof (induction xs)
  case Nil
  show ?case by (simp add: array_sort_def)
next
  case (Cons x xs)
  have "set (array_sort cmp xs) \<subseteq> S"
    using Cons.prems mset_array_sort [of cmp xs] by (metis set_mset_mset set_subset_Cons subset_trans)
  moreover have "sorted (map key (array_sort cmp xs))"
    using Cons by simp
  ultimately have "sorted (map key (insert_by cmp x (array_sort cmp xs)))"
    using Cons.prems by (intro sorted_insert_by [where S = S] agree) auto
  then show ?case by (simp add: array_sort_def)
qed

text \<open>
  A list with the elements of \<open>xs\<close> that is sorted by \<open>z\<close> and then by \<open>k\<close>, where
  \<open>k\<close> grows along \<open>xs\<close>, is the stable sort of \<open>xs\<close> by \<open>z\<close>.
\<close>

lemma stable_sort_unique:
  fixes z :: "'a \<Rightarrow> int" and k :: "'a \<Rightarrow> nat"
  assumes m: "mset ys = mset xs"
    and inc: "sorted_wrt (\<lambda>a b. k a < k b) xs"
    and srt: "sorted (map (\<lambda>g. (z g, k g)) ys)"
  shows "sort_key z xs = ys"
proof (rule properties_for_sort_key)
  show "mset ys = mset xs" by (rule m)
next
  have "sorted_wrt (\<lambda>a b. (z a, k a) \<le> (z b, k b)) ys"
    using srt by (simp add: sorted_map)
  then have "sorted_wrt (\<lambda>a b. z a \<le> z b) ys"
    by (rule sorted_wrt_mono_rel [rotated]) auto
  then show "sorted (map z ys)" by (simp add: sorted_map)
next
  fix c assume "c \<in> set ys"
  let ?P = "\<lambda>x. z c = z x"
  have s: "set xs = set ys" using m by (metis set_mset_mset)
  have "sorted_wrt (<) (map k xs)"
    using inc by (simp add: sorted_wrt_map)
  then have dk: "distinct (map k xs)"
    by (simp add: strict_sorted_iff)
  then have inj: "inj_on k (set xs)" and dx: "distinct xs"
    by (simp_all add: distinct_map)
  have dy: "distinct ys" using dx m by (metis mset_eq_imp_distinct_iff)
  have "sorted_wrt (\<lambda>a b. (z a, k a) \<le> (z b, k b)) (filter ?P ys)"
    using srt by (simp add: sorted_map sorted_wrt_filter)
  then have "sorted_wrt (\<lambda>a b. k a \<le> k b) (filter ?P ys)"
    by (rule sorted_wrt_mono_rel [rotated]) auto
  then have 1: "sorted (map k (filter ?P ys))" by (simp add: sorted_map)
  have "sorted_wrt (\<lambda>a b. k a \<le> k b) xs"
    using inc by (rule sorted_wrt_mono_rel [rotated]) auto
  then have "sorted_wrt (\<lambda>a b. k a \<le> k b) (filter ?P xs)"
    by (rule sorted_wrt_filter)
  then have 2: "sorted (map k (filter ?P xs))" by (simp add: sorted_map)
  have 3: "distinct (map k (filter ?P ys))" "distinct (map k (filter ?P xs))"
    using inj dx dy s by (auto simp: distinct_map intro: inj_on_subset)
  have "map k (filter ?P ys) = map k (filter ?P xs)"
    using 1 2 3 s by (intro sorted_distinct_set_unique) auto
  moreover have "inj_on k (set (filter ?P ys) \<union> set (filter ?P xs))"
    using inj s by (auto intro: inj_on_subset)
  ultimately show "filter ?P ys = filter ?P xs"
    by (simp add: inj_on_map_eq_map)
qed

subsection \<open>The loop of addGeometry\<close>

lemma addGeometry_loop_append:
  "addGeometry_loop i (pre @ rest) w =
     (case addGeometry_loop i pre w of
        Inl e \<Rightarrow> Inl e
      | Inr w' \<Rightarrow> addGeometry_loop (i + length pre) rest w')"
proof (induction pre arbitrary: i w)
  case Nil
  show ?case by simp
next
  case (Cons a pre)
  show ?case
  proof (cases a)
    case None
    then show ?thesis by simp
  next
    case (Some g)
    then show ?thesis
      using Cons.IH by (simp split: option.splits sum.splits)
  qed
qed

lemma geoList_bindGeometry: "geoList (bindGeometry g w) = geoList w @ [g]"
  by (simp add: bindGeometry_def UID_def)

lemma geoMap_bindGeometry: "geoMap (bindGeometry g w) = geoMap w"
  by (simp add: bindGeometry_def UID_def)

lemma zIndex_bindGeometry: "zIndex (heap (bindGeometry g w) r) = zIndex (heap w r)"
  by (simp add: bindGeometry_def UID_def)

lemma addGeometry_loop_geoList:
  "addGeometry_loop i gs w = Inr w' \<Longrightarrow> geoList w' = geoList w @ map the gs \<and> None \<notin> set gs"
proof (induction gs arbitrary: i w)
  case Nil
  then show ?case by simp
next
  case (Cons a gs)
  show ?case
  proof (cases a)
    case None
    with Cons.prems show ?thesis by simp
  next
    case (Some g)
    with Cons.prems Cons.IH show ?thesis
      by (fastforce simp: geoList_bindGeometry split: option.splits if_splits)
  qed
qed

lemma addGeometry_entries: "addGeometry w a = addGeometries w (entries a)"
  by (cases a) (simp_all add: addGeometry_def addGeometries_def)

subsection \<open>What successful calls keep true\<close>

lemma added_in_order_geoMap: "added_in_order (w\<lparr>geoMap := m\<rparr>) ins = added_in_order w ins"
  by (simp add: added_in_order_def internal_of_def)

lemma added_in_order_bindGeometry:
  assumes inv: "added_in_order w ins" and fresh: "g \<notin> set ins"
  shows "added_in_order (bindGeometry g w) (ins @ [g])"
proof -
  let ?w = "bindGeometry g w"
  have old: "\<And>r. r \<noteq> g \<Longrightarrow> internalId (heap ?w r) = internalId (heap w r)"
    by (simp add: bindGeometry_def UID_def)
  have new: "internalId (heap ?w g) = Some (uid w)"
    by (simp add: bindGeometry_def UID_def)
  have u: "uid ?w = uid w + 1"
    by (simp add: bindGeometry_def UID_def)
  have 1: "mset (geoList ?w) = mset (ins @ [g])"
    using inv by (simp add: geoList_bindGeometry added_in_order_def)
  have below: "\<forall>r \<in> set ins. \<exists>n. internalId (heap w r) = Some n \<and> n < uid w"
    using inv by (simp add: added_in_order_def)
  have 2: "\<forall>r \<in> set (ins @ [g]). \<exists>n. internalId (heap ?w r) = Some n \<and> n < uid ?w"
  proof
    fix r assume "r \<in> set (ins @ [g])"
    then consider "r = g" | "r \<in> set ins" "r \<noteq> g" using fresh by auto
    then show "\<exists>n. internalId (heap ?w r) = Some n \<and> n < uid ?w"
    proof cases
      case 1
      then show ?thesis using new u by simp
    next
      case 2
      then show ?thesis using below old u by fastforce
    qed
  qed
  have same: "internal_of ?w r = internal_of w r" if "r \<in> set ins" for r
  proof -
    from that fresh have "r \<noteq> g" by auto
    then show ?thesis by (simp add: internal_of_def old)
  qed
  have "sorted_wrt (\<lambda>a b. internal_of w a < internal_of w b) ins"
    using inv by (simp add: added_in_order_def)
  then have 3: "sorted_wrt (\<lambda>a b. internal_of ?w a < internal_of ?w b) ins"
    by (rule sorted_wrt_mono_rel [rotated]) (simp add: same)
  have 4: "\<forall>r \<in> set ins. internal_of ?w r < internal_of ?w g"
  proof
    fix r assume r: "r \<in> set ins"
    then obtain n where "internalId (heap w r) = Some n" "n < uid w" using below by blast
    then have "internal_of w r < uid w" by (simp add: internal_of_def)
    then show "internal_of ?w r < internal_of ?w g"
      using same [OF r] new by (simp add: internal_of_def)
  qed
  show ?thesis
    unfolding added_in_order_def using 1 2 3 4 by (simp add: sorted_wrt_append)
qed

lemma addGeometry_loop_in_order:
  assumes "addGeometry_loop i gs w = Inr w'" "added_in_order w ins"
    "distinct (ins @ map the gs)"
  shows "added_in_order w' (ins @ map the gs) \<and> (\<forall>r. zIndex (heap w' r) = zIndex (heap w r))"
  using assms
proof (induction gs arbitrary: i w ins)
  case Nil
  then show ?case by simp
next
  case (Cons a gs)
  show ?case
  proof (cases a)
    case None
    with Cons.prems show ?thesis by simp
  next
    case (Some g)
    have fresh: "g \<notin> set ins" and d: "distinct ((ins @ [g]) @ map the gs)"
      using Cons.prems(3) Some by auto
    show ?thesis
    proof (cases "geoId (heap w g)")
      case None
      with Cons.prems(1) Some have l: "addGeometry_loop (i + 1) gs (bindGeometry g w) = Inr w'"
        by simp
      have "added_in_order (bindGeometry g w) (ins @ [g])"
        using Cons.prems(2) fresh by (rule added_in_order_bindGeometry)
      from Cons.IH [OF l this d] show ?thesis
        using Some by (simp add: zIndex_bindGeometry)
    next
      case (Some k)
      with Cons.prems(1) \<open>a = Some g\<close>
      have l: "addGeometry_loop (i + 1) gs (bindGeometry g (w\<lparr>geoMap := (geoMap w)(k \<mapsto> g)\<rparr>)) = Inr w'"
        by (simp split: option.splits if_splits)
      have "added_in_order (bindGeometry g (w\<lparr>geoMap := (geoMap w)(k \<mapsto> g)\<rparr>)) (ins @ [g])"
        using Cons.prems(2) fresh
        by (intro added_in_order_bindGeometry) (simp_all add: added_in_order_geoMap)
      from Cons.IH [OF l this d] show ?thesis
        using \<open>a = Some g\<close> by (simp add: zIndex_bindGeometry)
    qed
  qed
qed

lemma compare_agrees_order_key:
  assumes "internalId (heap w a) = Some n" "internalId (heap w b) = Some m"
  shows "(sign_of (compare (heap w a) (heap w b)) \<le> 0) = (order_key w a \<le> order_key w b)"
  using assms by (auto simp: compare_def sign_of_def order_key_def internal_of_def)

lemma before_order_key:
  assumes "internalId (heap w a) = Some n" "internalId (heap w b) = Some m"
  shows "before w a b = (order_key w a < order_key w b)"
  using assms by (auto simp: before_def compare_def order_key_def internal_of_def)

lemma sortGeometries_in_order:
  assumes "added_in_order w ins"
  shows "added_in_order (sortGeometries w) ins"
    and "sorted (map (order_key (sortGeometries w)) (geoList (sortGeometries w)))"
proof -
  show "added_in_order (sortGeometries w) ins"
    using assms by (simp add: added_in_order_def sortGeometries_def mset_array_sort internal_of_def)
  have k: "order_key (sortGeometries w) = order_key w"
    by (simp add: order_key_def internal_of_def sortGeometries_def fun_eq_iff)
  have s: "set (geoList w) \<subseteq> set ins"
    using assms by (metis added_in_order_def set_mset_mset subset_refl)
  have "sorted (map (order_key w)
          (array_sort (\<lambda>a b. compare (heap w a) (heap w b)) (geoList w)))"
  proof (rule sorted_array_sort [where S = "set ins"])
    fix a b assume "a \<in> set ins" "b \<in> set ins"
    then obtain n m where "internalId (heap w a) = Some n" "internalId (heap w b) = Some m"
      using assms unfolding added_in_order_def by blast
    then show "(sign_of (compare (heap w a) (heap w b)) \<le> 0) = (order_key w a \<le> order_key w b)"
      by (rule compare_agrees_order_key)
  qed (rule s)
  then show "sorted (map (order_key (sortGeometries w)) (geoList (sortGeometries w)))"
    by (simp add: k) (simp add: sortGeometries_def)
qed

lemma addGeometries_in_order:
  assumes "addGeometries w gs = Inr w'"
    and "added_in_order w ins" "sorted (map (order_key w) (geoList w))"
    and "distinct (ins @ map the gs)"
  shows "added_in_order w' (ins @ map the gs)"
    and "sorted (map (order_key w') (geoList w'))"
    and "\<forall>r. zIndex (heap w' r) = zIndex (heap w r)"
    and "None \<notin> set gs"
proof -
  have "added_in_order w' (ins @ map the gs) \<and> sorted (map (order_key w') (geoList w'))
        \<and> (\<forall>r. zIndex (heap w' r) = zIndex (heap w r)) \<and> None \<notin> set gs"
  proof (cases "gs = []")
    case True
    then show ?thesis using assms by (simp add: addGeometries_def)
  next
    case False
    then obtain w1 where l: "addGeometry_loop 0 gs w = Inr w1" and w': "w' = sortGeometries w1"
      using assms(1) by (auto simp: addGeometries_def split: sum.splits)
    have 1: "added_in_order w1 (ins @ map the gs)" and z: "\<forall>r. zIndex (heap w1 r) = zIndex (heap w r)"
      using addGeometry_loop_in_order [OF l assms(2) assms(4)] by simp_all
    have "\<forall>r. zIndex (heap w' r) = zIndex (heap w r)"
      using z by (simp add: w' sortGeometries_def)
    moreover have "None \<notin> set gs"
      using addGeometry_loop_geoList [OF l] by simp
    ultimately show ?thesis
      using sortGeometries_in_order [OF 1] by (simp add: w')
  qed
  then show "added_in_order w' (ins @ map the gs)"
    and "sorted (map (order_key w') (geoList w'))"
    and "\<forall>r. zIndex (heap w' r) = zIndex (heap w r)"
    and "None \<notin> set gs"
    by simp_all
qed

lemma addGeometry_calls_in_order:
  assumes "addGeometry_calls w args = Inr w'"
    and "added_in_order w ins" "sorted (map (order_key w) (geoList w))"
    and "distinct (ins @ map the (concat (map entries args)))"
  shows "added_in_order w' (ins @ map the (concat (map entries args)))
         \<and> sorted (map (order_key w') (geoList w'))
         \<and> None \<notin> set (concat (map entries args))"
  using assms
proof (induction args arbitrary: w ins)
  case Nil
  then show ?case by simp
next
  case (Cons a args)
  from Cons.prems(1) obtain w1 where
    a: "addGeometries w (entries a) = Inr w1" and r: "addGeometry_calls w1 args = Inr w'"
    by (auto simp: addGeometry_entries split: sum.splits)
  have d1: "distinct (ins @ map the (entries a))"
    and d2: "distinct ((ins @ map the (entries a)) @ map the (concat (map entries args)))"
    using Cons.prems(4) by auto
  note step = addGeometries_in_order [OF a Cons.prems(2) Cons.prems(3) d1]
  from Cons.IH [OF r step(1) step(2) d2] step(4) show ?case by simp
qed

subsection \<open>Order of the geometries\<close>

text \<open>
  When no call throws. Take a layer whose list is empty and a sequence of
  \<open>addGeometry\<close> calls none of which throws, no Geometry object being passed twice.
  Then \<open>_geoList\<close> is the stable sort, by \<open>zIndex\<close> ascending, of the geometries in the
  order they were added; it is strictly ascending for the comparator (\<open>zIndex\<close>, then
  internal id); and internal ids ascend in the order of addition. Adding A (z = 0),
  B (z = 5), C (z = 0) gives A, C, B.
\<close>

lemma add_sequence_order:
  assumes fresh: "geoList w0 = []"
    and calls: "addGeometry_calls w0 args = Inr w"
    and once: "distinct (map the (concat (map entries args)))"
  shows "geoList w = sort_key (\<lambda>g. zIndex (heap w g)) (map the (concat (map entries args)))
         \<and> sorted_wrt (before w) (geoList w)
         \<and> sorted_wrt (\<lambda>a b. internal_of w a < internal_of w b) (map the (concat (map entries args)))"
proof -
  define ins where "ins = map the (concat (map entries args))"
  have i0: "added_in_order w0 []" and s0: "sorted (map (order_key w0) (geoList w0))"
    using fresh by (simp_all add: added_in_order_def)
  have inv: "added_in_order w ins" and srt: "sorted (map (order_key w) (geoList w))"
    using addGeometry_calls_in_order [OF calls i0 s0] once by (simp_all add: ins_def)
  have m: "mset (geoList w) = mset ins"
    and some: "\<forall>g \<in> set ins. \<exists>n. internalId (heap w g) = Some n \<and> n < uid w"
    and inc: "sorted_wrt (\<lambda>a b. internal_of w a < internal_of w b) ins"
    using inv by (simp_all add: added_in_order_def)
  have srt': "sorted (map (\<lambda>g. (zIndex (heap w g), internal_of w g)) (geoList w))"
    using srt by (simp add: order_key_def [abs_def])
  have 1: "sort_key (\<lambda>g. zIndex (heap w g)) ins = geoList w"
    using m inc srt' by (rule stable_sort_unique)
  have "sorted_wrt (<) (map (internal_of w) ins)"
    using inc by (simp add: sorted_wrt_map)
  then have "distinct (map (internal_of w) ins)"
    by (simp add: strict_sorted_iff)
  then have inj: "inj_on (internal_of w) (set ins)" and dx: "distinct ins"
    by (simp_all add: distinct_map)
  have s: "set (geoList w) = set ins" using m by (metis set_mset_mset)
  have dl: "distinct (geoList w)" using dx m by (metis mset_eq_imp_distinct_iff)
  have "inj_on (order_key w) (set (geoList w))"
    using inj s by (auto simp: inj_on_def order_key_def)
  then have "distinct (map (order_key w) (geoList w))"
    using dl by (simp add: distinct_map)
  then have "sorted_wrt (<) (map (order_key w) (geoList w))"
    using srt by (simp add: strict_sorted_iff)
  then have "sorted_wrt (\<lambda>a b. order_key w a < order_key w b) (geoList w)"
    by (simp add: sorted_wrt_map)
  then have 2: "sorted_wrt (before w) (geoList w)"
  proof (rule sorted_wrt_mono_rel [rotated])
    fix a b assume "a \<in> set (geoList w)" "b \<in> set (geoList w)" "order_key w a < order_key w b"
    moreover then obtain n m where "internalId (heap w a) = Some n" "internalId (heap w b) = Some m"
      using some s by blast
    ultimately show "before w a b" by (simp add: before_order_key)
  qed
  show ?thesis using 1 2 inc by (simp add: ins_def)
qed

lemma add_sequence_order_example:
  "geoList (new_layer example_heap) = []
   \<and> addGeometry_calls (new_layer example_heap) [Single 0, Single 1, Single 2] = Inr layer_abc
   \<and> distinct (map the (concat (map entries [Single 0, Single 1, Single 2])))
   \<and> geoList layer_abc
       = sort_key (\<lambda>g. zIndex (heap layer_abc g))
           (map the (concat (map entries [Single 0, Single 1, Single 2])))
   \<and> sorted_wrt (before layer_abc) (geoList layer_abc)
   \<and> geoList layer_abc = [0, 2, 1]"
proof -
  have 1: "geoList (new_layer example_heap) = []" by (simp add: new_layer_def)
  have "thrown (addGeometry_calls (new_layer example_heap) [Single 0, Single 1, Single 2]) = None"
    by (simp add: store_defs)
  then have 2: "addGeometry_calls (new_layer example_heap) [Single 0, Single 1, Single 2] = Inr layer_abc"
    unfolding layer_abc_def by (rule returned)
  have 3: "distinct (map the (concat (map entries [Single 0, Single 1, Single 2])))" by simp
  from add_sequence_order [OF 1 2 3] 1 2 3 geoList_layer_abc show ?thesis by blast
qed

text \<open>
  C1. The order is lost when a call throws. The layer holds B (z = 5); the batch of
  A (z = 0, id a) and another geometry with id a throws at index 1, after A was pushed
  and before \<open>_sortGeometries\<close> is reached. \<open>_geoList\<close> is left as B, A: not sorted by
  \<open>zIndex\<close>. The binary search of \<open>_findInList\<close>, which needs that order, then misses
  A, so removing A unbinds it and leaves it in \<open>_geoList\<close>.
\<close>

theorem addGeometry_throw_skips_sort:
  "thrown (addGeometry layer_b (Batch [Some 0, Some 3])) = Some (DuplicateId ''a'' 1)
   \<and> geoList layer_b = [1]
   \<and> geoList layer_b_a = [1, 0]
   \<and> zIndex (heap layer_b_a 1) = 5
   \<and> zIndex (heap layer_b_a 0) = 0
   \<and> \<not> before layer_b_a 1 0
   \<and> findInList layer_b_a 0 = - 1
   \<and> thrown (removeGeometry layer_b_a [Geo 0]) = None
   \<and> geoList (world_after (removeGeometry layer_b_a [Geo 0])) = [1, 0]
   \<and> layer (heap (world_after (removeGeometry layer_b_a [Geo 0])) 0) = None"
  by (simp add: layer_b_a_def layer_b_def store_defs before_def findInList_def gt0_def
      removeGeometry_def removeOne_def geometry_remove_def onRemoveGeometry_def Let_def)

subsection \<open>A duplicate id\<close>

text \<open>
  C2, as the code has it. When the entries before index \<open>length pre\<close> are added
  without a throw and the entry at that index carries an id that \<open>_geoMap\<close> then
  holds, \<open>addGeometry\<close> throws the duplicate-id error for that index and leaves the
  store as the loop had it at that moment: the earlier entries of the batch stay
  appended to \<open>_geoList\<close>. For a single geometry, or a collision at index 0, that state
  is the one before the call.
\<close>

theorem addGeometry_duplicate:
  assumes "entries a = pre @ Some g # post"
    and "addGeometry_loop 0 pre w = Inr w'"
    and "geoId (heap w' g) = Some k"
    and "geoMap w' k = Some other"
  shows "addGeometry w a = Inl (DuplicateId k (length pre), w')
         \<and> geoList w' = geoList w @ map the pre"
proof -
  have "addGeometry_loop 0 (pre @ Some g # post) w = Inl (DuplicateId k (length pre), w')"
    using assms(2-) by (simp add: addGeometry_loop_append geoMap_read_def)
  then have "addGeometry w a = Inl (DuplicateId k (length pre), w')"
    using assms(1) by (simp add: addGeometry_entries addGeometries_def)
  moreover have "geoList w' = geoList w @ map the pre"
    using addGeometry_loop_geoList [OF assms(2)] by simp
  ultimately show ?thesis by simp
qed

theorem addGeometry_duplicate_witness:
  "entries (Single 3) = [] @ Some 3 # []
   \<and> addGeometry_loop 0 [] layer_a = Inr layer_a
   \<and> geoId (heap layer_a 3) = Some ''a'' \<and> geoMap layer_a ''a'' = Some 0
   \<and> addGeometry layer_a (Single 3) = Inl (DuplicateId ''a'' 0, layer_a)
   \<and> entries (Batch [Some 1, Some 3]) = [Some 1] @ Some 3 # []
   \<and> addGeometry_loop 0 [Some 1] layer_a = Inr layer_a_b
   \<and> geoId (heap layer_a_b 3) = Some ''a'' \<and> geoMap layer_a_b ''a'' = Some 0
   \<and> addGeometry layer_a (Batch [Some 1, Some 3])
       = Inl (DuplicateId ''a'' 1, layer_a_b)
   \<and> geoList layer_a_b = geoList layer_a @ [1]"
proof -
  have e: "entries (Single 3) = [] @ Some 3 # []"
    "entries (Batch [Some 1, Some 3]) = [Some 1] @ Some 3 # []"
    by simp_all
  have l0: "addGeometry_loop 0 [] layer_a = Inr layer_a" by simp
  have "thrown (addGeometry_loop 0 [Some 1] layer_a) = None"
    by (simp add: layer_a_def store_defs)
  then have l1: "addGeometry_loop 0 [Some 1] layer_a = Inr layer_a_b"
    unfolding layer_a_b_def by (rule returned)
  have a: "geoId (heap layer_a 3) = Some ''a''" "geoMap layer_a ''a'' = Some 0"
    by (simp_all add: layer_a_def store_defs)
  have b: "geoId (heap layer_a_b 3) = Some ''a''" "geoMap layer_a_b ''a'' = Some 0"
    by (simp_all add: layer_a_b_def layer_a_def store_defs)
  from addGeometry_duplicate [OF e(1) l0 a] addGeometry_duplicate [OF e(2) l1 b] e l0 l1 a b
  show ?thesis by simp
qed

text \<open>
  The claim as written fails for a collision behind the first entry: the layer holds
  A; the batch of B and a geometry with id a throws at index 1, and B has taken
  effect, in the list and in the id map.
\<close>

theorem addGeometry_duplicate_counterexample:
  "thrown (addGeometry layer_a (Batch [Some 1, Some 3])) = Some (DuplicateId ''a'' 1)
   \<and> geoList layer_a = [0]
   \<and> geoList (world_after (addGeometry layer_a (Batch [Some 1, Some 3]))) = [0, 1]
   \<and> geoMap layer_a ''b'' = None
   \<and> geoMap (world_after (addGeometry layer_a (Batch [Some 1, Some 3]))) ''b'' = Some 1"
  by (simp add: layer_a_def store_defs)

subsection \<open>A null entry\<close>




subsection \<open>Removing and adding again\<close>

lemma geoMap_onRemoveGeometry:
  assumes "\<not> clearing w" "layer (heap w g) = Some (self w)" "internalId (heap w g) \<noteq> None"
    "geoId (heap w g) = Some x"
  shows "geoMap (onRemoveGeometry w (Some g)) = (geoMap w)(x := None)"
  using assms by (auto simp: onRemoveGeometry_def Let_def)

lemma heap_onRemoveGeometry: "heap (onRemoveGeometry w t) = heap w"
  by (simp add: onRemoveGeometry_def Let_def split: option.splits)

lemma removeGeometry_bound:
  assumes "\<not> clearing w" "layer (heap w g) = Some (self w)" "internalId (heap w g) \<noteq> None"
    "geoId (heap w g) = Some x"
  shows "thrown (removeGeometry w [Geo g]) = None"
    and "geoMap (world_after (removeGeometry w [Geo g])) x = None"
    and "geoId (heap (world_after (removeGeometry w [Geo g])) g') = geoId (heap w g')"
  using assms
  by (simp_all add: removeGeometry_def removeOne_def geometry_remove_def Let_def thrown_def
      world_after_def geoMap_onRemoveGeometry heap_onRemoveGeometry)

lemma addGeometry_single_free:
  assumes "geoId (heap w g) = Some x" "geoMap w x = None" "\<not> inherited x"
  shows "\<exists>w'. addGeometry w (Single g) = Inr w' \<and> geoMap w' x = Some g"
  using assms
  by (simp add: addGeometry_def addGeometries_def sortGeometries_def geoMap_bindGeometry
      geoMap_read_def)

text \<open>
  \<open>addGeometry\<close> registers an id only behind its duplicate check, which an inherited
  name never passes: whether the call returns or throws, the names the id map holds
  itself stay free of inherited ones.
\<close>

lemma names_own_bindGeometry: "names_own (bindGeometry g w) = names_own w"
  by (simp add: names_own_def geoMap_bindGeometry)

lemma addGeometry_loop_names_own:
  "names_own w \<Longrightarrow> names_own (world_after (addGeometry_loop i gs w))"
proof (induction gs arbitrary: i w)
  case Nil
  then show ?case by (simp add: world_after_def)
next
  case (Cons a gs)
  show ?case
  proof (cases a)
    case None
    then show ?thesis using Cons.prems by (simp add: world_after_def)
  next
    case (Some g)
    show ?thesis
    proof (cases "geoId (heap w g)")
      case None
      have "names_own (bindGeometry g w)"
        using Cons.prems by (simp add: names_own_bindGeometry)
      from Cons.IH [OF this] show ?thesis
        using Some None by simp
    next
      case (Some k)
      show ?thesis
      proof (cases "geoMap_read w k = Absent")
        case False
        then show ?thesis
          using \<open>a = Some g\<close> Some Cons.prems by (simp add: world_after_def)
      next
        case True
        then have "\<not> inherited k"
          by (auto simp: geoMap_read_def split: option.splits if_splits)
        then have "names_own (bindGeometry g (w\<lparr>geoMap := (geoMap w)(k \<mapsto> g)\<rparr>))"
          using Cons.prems by (simp add: names_own_bindGeometry) (simp add: names_own_def)
        from Cons.IH [OF this] show ?thesis
          using \<open>a = Some g\<close> Some True by simp
      qed
    qed
  qed
qed

lemma addGeometry_names_own: "names_own w \<Longrightarrow> names_own (world_after (addGeometry w a))"
proof -
  assume n: "names_own w"
  have s: "\<And>u. names_own (sortGeometries u) = names_own u"
    by (simp add: names_own_def sortGeometries_def)
  show ?thesis
  proof (cases "entries a = []")
    case True
    then show ?thesis using n by (simp add: addGeometry_entries addGeometries_def world_after_def)
  next
    case False
    show ?thesis
    proof (cases "addGeometry_loop 0 (entries a) w")
      case (Inl e)
      then show ?thesis
        using addGeometry_loop_names_own [OF n, of 0 "entries a"] False
        by (simp add: addGeometry_entries addGeometries_def world_after_def)
    next
      case (Inr w')
      then show ?thesis
        using addGeometry_loop_names_own [OF n, of 0 "entries a"] False
        by (simp add: addGeometry_entries addGeometries_def world_after_def s)
    qed
  qed
qed

text \<open>
  C5. Let g be bound to the layer (its layer is this one and it has an internal id),
  with an external id x that is a name of the id map's own (not one inherited from
  \<open>Object.prototype\<close>, under which \<open>addGeometry\<close> registers nothing), outside of
  \<open>clear\<close>. Then \<open>removeGeometry(g)\<close> returns, \<open>getGeometryById(x)\<close> is null
  afterwards, and adding a geometry \<open>g'\<close> that carries the id x does not throw;
  afterwards the id leads to \<open>g'\<close> (unless x is the empty string, which
  \<open>getGeometryById\<close> never looks up).
\<close>

theorem remove_then_readd:
  assumes "\<not> clearing w"
    and "layer (heap w g) = Some (self w)"
    and "internalId (heap w g) \<noteq> None"
    and "geoId (heap w g) = Some x"
    and "geoId (heap w g') = Some x"
    and "\<not> inherited x"
  shows "thrown (removeGeometry w [Geo g]) = None
         \<and> getGeometryById (world_after (removeGeometry w [Geo g])) (Some x) = Absent
         \<and> thrown (addGeometry (world_after (removeGeometry w [Geo g])) (Single g')) = None
         \<and> getGeometryById
              (world_after (addGeometry (world_after (removeGeometry w [Geo g])) (Single g')))
              (Some x)
             = (if x = [] then Absent else Member g')"
proof -
  let ?w1 = "world_after (removeGeometry w [Geo g])"
  have t: "thrown (removeGeometry w [Geo g]) = None"
    using assms(1-4) by (rule removeGeometry_bound(1))
  have m: "geoMap ?w1 x = None"
    using assms(1-4) by (rule removeGeometry_bound(2))
  have i: "geoId (heap ?w1 g') = Some x"
    using removeGeometry_bound(3) [OF assms(1-4)] assms(5) by simp
  obtain w' where w': "addGeometry ?w1 (Single g') = Inr w'" "geoMap w' x = Some g'"
    using addGeometry_single_free [OF i m assms(6)] by blast
  show ?thesis
    using t m w' assms(6)
    by (simp add: getGeometryById_def geoMap_read_def thrown_def world_after_def)
qed

theorem remove_then_readd_witness:
  "\<not> clearing layer_a \<and> layer (heap layer_a 0) = Some (self layer_a)
   \<and> internalId (heap layer_a 0) \<noteq> None
   \<and> geoId (heap layer_a 0) = Some ''a'' \<and> geoId (heap layer_a 3) = Some ''a''
   \<and> \<not> inherited ''a''
   \<and> getGeometryById layer_a (Some ''a'') = Member 0
   \<and> thrown (removeGeometry layer_a [Geo 0]) = None
   \<and> getGeometryById (world_after (removeGeometry layer_a [Geo 0])) (Some ''a'') = Absent
   \<and> thrown (addGeometry (world_after (removeGeometry layer_a [Geo 0])) (Single 3)) = None
   \<and> getGeometryById
        (world_after (addGeometry (world_after (removeGeometry layer_a [Geo 0])) (Single 3)))
        (Some ''a'')
       = Member 3"
proof -
  have h: "\<not> clearing layer_a" "layer (heap layer_a 0) = Some (self layer_a)"
    "internalId (heap layer_a 0) \<noteq> None" "geoId (heap layer_a 0) = Some ''a''"
    "geoId (heap layer_a 3) = Some ''a''" "\<not> inherited ''a''"
    by (simp_all add: layer_a_def store_defs)
  have g: "getGeometryById layer_a (Some ''a'') = Member 0"
    by (simp add: getGeometryById_def layer_a_def store_defs)
  from remove_then_readd [OF h] h g show ?thesis by simp
qed

subsection \<open>Iteration over a snapshot\<close>

lemma forEach_loop_visits:
  "take (length (snd (forEach_loop fn gs i w visited))) (visited @ zip gs [i..<i + length gs])
     = snd (forEach_loop fn gs i w visited)
   \<and> (thrown (fst (forEach_loop fn gs i w visited)) = None
        \<longrightarrow> snd (forEach_loop fn gs i w visited) = visited @ zip gs [i..<i + length gs])"
proof (induction gs arbitrary: i w visited)
  case Nil
  show ?case by (simp add: thrown_def)
next
  case (Cons g gs)
  have z: "zip (g # gs) [i..<Suc (i + length gs)] = (g, i) # zip gs [Suc i..<Suc (i + length gs)]"
    by (simp del: upt_Suc add: upt_conv_Cons)
  show ?case
  proof (cases "fn g i w")
    case (Inl e)
    then show ?thesis
      by (cases e) (simp add: z thrown_def del: upt_Suc)
  next
    case (Inr w')
    then show ?thesis
      using Cons.IH [of "Suc i" w' "visited @ [(g, i)]"] by (simp add: z del: upt_Suc)
  qed
qed

text \<open>
  C8. Whatever the callback does to the store, the calls \<open>forEach\<close> makes are a prefix
  of the geometries of \<open>_geoList\<close> as it was when \<open>forEach\<close> was called, each with its
  index, in that order; and when no callback throws they are all of them.
\<close>

theorem forEach_snapshot:
  "take (length (snd (forEach w fn))) (zip (geoList w) [0..<length (geoList w)]) = snd (forEach w fn)
   \<and> (thrown (fst (forEach w fn)) = None
        \<longrightarrow> snd (forEach w fn) = zip (geoList w) [0..<length (geoList w)])"
  using forEach_loop_visits [of fn "geoList w" 0 w "[]"] by (simp add: forEach_def)

theorem forEach_snapshot_witness:
  "thrown (fst (forEach layer_abc (\<lambda>geo i s. Inr (geometry_remove geo s)))) = None
   \<and> snd (forEach layer_abc (\<lambda>geo i s. Inr (geometry_remove geo s))) = [(0, 0), (2, 1), (1, 2)]
   \<and> geoList (world_after (fst (forEach layer_abc (\<lambda>geo i s. Inr (geometry_remove geo s))))) = []"
proof -
  have t: "thrown (fst (forEach layer_abc (\<lambda>geo i s. Inr (geometry_remove geo s)))) = None"
    by (simp add: forEach_def layer_abc_def store_defs)
  have e: "geoList (world_after (fst (forEach layer_abc (\<lambda>geo i s. Inr (geometry_remove geo s))))) = []"
    by (simp add: layer_abc_def store_defs forEach_def geometry_remove_def onRemoveGeometry_def
        findInList_def splice1_def gt0_def Let_def)
  have "zip (geoList layer_abc) [0..<length (geoList layer_abc)] = [(0, 0), (2, 1), (1, 2)]"
    by (simp add: geoList_layer_abc upt_rec)
  with forEach_snapshot [of layer_abc "\<lambda>geo i s. Inr (geometry_remove geo s)"] t e
  show ?thesis by simp
qed

subsection \<open>Lookup misses\<close>

text \<open>
  What holds of a miss: \<open>getGeometryById\<close> returns null for a null or undefined id and
  for the empty string, whatever the store holds, and for a name the id map neither
  holds nor inherits.
\<close>

lemma getGeometryById_miss:
  "getGeometryById w None = Absent
   \<and> getGeometryById w (Some []) = Absent
   \<and> (geoMap w k = None \<and> \<not> inherited k \<longrightarrow> getGeometryById w (Some k) = Absent)"
  by (simp add: getGeometryById_def geoMap_read_def)

text \<open>
  C10. The lookup does not return null for every id under which no geometry is
  registered: on a new layer, which holds no geometry at all,
  \<open>getGeometryById('toString')\<close> and \<open>getGeometryById('constructor')\<close> return the
  member the plain object \<open>_geoMap\<close> inherits. The empty string and a null id give
  null, also with a geometry registered under the empty string.
\<close>

theorem getGeometryById_inherited:
  "geoList (new_layer example_heap) = []
   \<and> geoMap (new_layer example_heap) ''toString'' = None
   \<and> getGeometryById (new_layer example_heap) (Some ''toString'') = Inherited
   \<and> getGeometryById (new_layer example_heap) (Some ''constructor'') = Inherited
   \<and> getGeometryById (new_layer example_heap) (Some ''b'') = Absent
   \<and> getGeometryById (new_layer example_heap) None = Absent
   \<and> geoMap (world_after (addGeometry (new_layer example_heap) (Single 4))) [] = Some 4
   \<and> getGeometryById (world_after (addGeometry (new_layer example_heap) (Single 4))) (Some [])
       = Absent"
  by (simp add: getGeometryById_def store_defs)

section \<open>Properties of identify\<close>

lemma identify_loop_step:
  "\<exists>asked'. set asked' \<subseteq> set asked \<union> (if containsPoint v geo point then {geo} else {}) \<and>
     identify_loop v options point cp (geo # rest) hits asked =
       (if passes v options point cp geo then
          (if count_reached options (hits @ [geo]) then (hits @ [geo], asked')
           else identify_loop v options point cp rest (hits @ [geo]) asked')
        else identify_loop v options point cp rest hits asked')"
proof (cases "opt_filter options")
  case None
  then show ?thesis
    by (intro exI [of _ asked]) (auto simp: passes_def split: option.splits)
next
  case (Some f)
  show ?thesis
  proof (cases "isVisible v geo \<and> getPainter v geo
      \<and> (isArrowLine v geo
         \<or> (case getContainerExtent v geo of None \<Rightarrow> False | Some extent \<Rightarrow> extent cp))
      \<and> containsPoint v geo point")
    case True
    then show ?thesis using Some
      by (intro exI [of _ "asked @ [geo]"]) (auto simp: passes_def split: option.splits)
  next
    case False
    then show ?thesis using Some
      by (intro exI [of _ asked]) (auto simp: passes_def split: option.splits)
  qed
qed

lemma identify_loop_unlimited:
  assumes "opt_count options = None \<or> opt_count options = Some 0"
  shows "fst (identify_loop v options point cp gs hits asked)
         = hits @ filter (passes v options point cp) gs"
proof (induction gs arbitrary: hits asked)
  case Nil
  show ?case by simp
next
  case (Cons g gs)
  have nr: "\<And>hs. \<not> count_reached options hs"
    using assms by (auto simp: count_reached_def)
  obtain asked' where "identify_loop v options point cp (g # gs) hits asked =
       (if passes v options point cp g then
          (if count_reached options (hits @ [g]) then (hits @ [g], asked')
           else identify_loop v options point cp gs (hits @ [g]) asked')
        else identify_loop v options point cp gs hits asked')"
    using identify_loop_step [where asked = asked and v = v and geo = g and point = point
        and options = options and cp = cp and rest = gs and hits = hits] by blast
  then show ?case
    by (simp add: nr Cons.IH del: identify_loop.simps)
qed

lemma identify_loop_negative:
  assumes "opt_count options = Some n" "n < 0"
  shows "fst (identify_loop v options point cp gs hits asked)
         = hits @ take 1 (filter (passes v options point cp) gs)"
proof (induction gs arbitrary: hits asked)
  case Nil
  show ?case by simp
next
  case (Cons g gs)
  have r: "\<And>hs. count_reached options hs"
    using assms by (auto simp: count_reached_def)
  obtain asked' where "identify_loop v options point cp (g # gs) hits asked =
       (if passes v options point cp g then
          (if count_reached options (hits @ [g]) then (hits @ [g], asked')
           else identify_loop v options point cp gs (hits @ [g]) asked')
        else identify_loop v options point cp gs hits asked')"
    using identify_loop_step [where asked = asked and v = v and geo = g and point = point
        and options = options and cp = cp and rest = gs and hits = hits] by blast
  then show ?case
    by (simp add: r Cons.IH del: identify_loop.simps)
qed

lemma identify_loop_positive:
  assumes "opt_count options = Some n" "0 < n"
  shows "int (length hits) < n \<Longrightarrow> fst (identify_loop v options point cp gs hits asked)
         = hits @ take (nat n - length hits) (filter (passes v options point cp) gs)"
proof (induction gs arbitrary: hits asked)
  case Nil
  show ?case by simp
next
  case (Cons g gs)
  obtain asked' where step: "identify_loop v options point cp (g # gs) hits asked =
       (if passes v options point cp g then
          (if count_reached options (hits @ [g]) then (hits @ [g], asked')
           else identify_loop v options point cp gs (hits @ [g]) asked')
        else identify_loop v options point cp gs hits asked')"
    using identify_loop_step [where asked = asked and v = v and geo = g and point = point
        and options = options and cp = cp and rest = gs and hits = hits] by blast
  show ?case
  proof (cases "passes v options point cp g")
    case False
    then show ?thesis
      using step Cons.IH [OF Cons.prems] by (simp del: identify_loop.simps)
  next
    case True
    have more: "nat n - length hits = Suc (nat n - Suc (length hits))"
      using Cons.prems by linarith
    show ?thesis
    proof (cases "count_reached options (hits @ [g])")
      case True
      then have "nat n - Suc (length hits) = 0"
        using assms by (simp add: count_reached_def)
      then show ?thesis
        using step \<open>passes v options point cp g\<close> True more by (simp del: identify_loop.simps)
    next
      case False
      then have "int (length (hits @ [g])) < n"
        using assms by (simp add: count_reached_def)
      from Cons.IH [OF this] show ?thesis
        using step \<open>passes v options point cp g\<close> False more by (simp del: identify_loop.simps)
    qed
  qed
qed

lemma identify_loop_asked:
  "set (snd (identify_loop v options point cp gs hits asked))
     \<subseteq> set asked \<union> {g \<in> set gs. containsPoint v g point}"
proof (induction gs arbitrary: hits asked)
  case Nil
  show ?case by simp
next
  case (Cons g gs)
  obtain asked' where sub: "set asked' \<subseteq> set asked \<union> (if containsPoint v g point then {g} else {})"
    and step: "identify_loop v options point cp (g # gs) hits asked =
       (if passes v options point cp g then
          (if count_reached options (hits @ [g]) then (hits @ [g], asked')
           else identify_loop v options point cp gs (hits @ [g]) asked')
        else identify_loop v options point cp gs hits asked')"
    using identify_loop_step [where asked = asked and v = v and geo = g and point = point
        and options = options and cp = cp and rest = gs and hits = hits] by blast
  have "set (snd (identify_loop v options point cp (g # gs) hits asked))
          \<subseteq> set asked' \<union> {g \<in> set gs. containsPoint v g point}"
    using Cons.IH [of hits asked'] Cons.IH [of "hits @ [g]" asked']
    by (simp only: step split: if_splits) auto
  also have "\<dots> \<subseteq> set asked \<union> {x \<in> set (g # gs). containsPoint v x point}"
    using sub by (auto split: if_splits)
  finally show ?case .
qed

lemma is_hit_passes:
  "is_hit v options coordinate
     = passes v options (coordinateToPoint v coordinate)
         (pointToContainerPoint v (coordinateToPoint v coordinate))"
  by (simp add: fun_eq_iff is_hit_def Let_def)

lemma identify_capped:
  "identify_hits w v coordinate options
     = capped options (filter (is_hit v options coordinate) (rev (geoList w)))"
proof (cases "opt_count options")
  case None
  then show ?thesis
    by (simp add: identify_hits_def identify_trace_def identify_loop_unlimited capped_def
        is_hit_passes Let_def)
next
  case (Some n)
  consider "n = 0" | "n < 0" | "0 < n" by linarith
  then show ?thesis
  proof cases
    case 1
    then show ?thesis using Some
      by (simp add: identify_hits_def identify_trace_def identify_loop_unlimited capped_def
          is_hit_passes Let_def)
  next
    case 2
    then show ?thesis using Some
      by (simp add: identify_hits_def identify_trace_def identify_loop_negative capped_def
          is_hit_passes Let_def)
  next
    case 3
    then show ?thesis using Some identify_loop_positive [OF Some 3, of "[]"]
      by (simp add: identify_hits_def identify_trace_def capped_def is_hit_passes Let_def)
  qed
qed

text \<open>
  C4, as the code has it. On a layer that is on no map \<open>identify\<close> throws a
  TypeError. On a layer that is on a map it returns the geometries that pass the test
  (visible, with a painter, inside the extent unless an arrowed line, containing the
  point, accepted by the filter), in the reverse of the order of \<open>_geoList\<close>, cut by
  the count: all of them without a count, the first \<open>n\<close> for a positive count \<open>n\<close>,
  hence never more than \<open>n\<close>; the empty list when no geometry passes. When
  \<open>_geoList\<close> is in the comparator's order, the result is in strictly descending
  order (higher \<open>zIndex\<close> first, among equal \<open>zIndex\<close> the later-added first). The
  filter is called only with geometries that contain the point.
\<close>

theorem identify_topmost_first:
  "identify w None coordinate options = Inl TypeError
   \<and> identify w (Some v) coordinate options = Inr (identify_hits w v coordinate options)
   \<and> identify_hits w v coordinate options
       = capped options (filter (is_hit v options coordinate) (rev (geoList w)))
   \<and> (opt_count options = None \<longrightarrow>
        identify_hits w v coordinate options
          = filter (is_hit v options coordinate) (rev (geoList w)))
   \<and> (opt_count options = Some n \<and> 0 < n \<longrightarrow>
        identify_hits w v coordinate options
          = take (nat n) (filter (is_hit v options coordinate) (rev (geoList w)))
        \<and> length (identify_hits w v coordinate options) \<le> nat n)
   \<and> ((\<forall>g \<in> set (geoList w). \<not> is_hit v options coordinate g) \<longrightarrow>
        identify_hits w v coordinate options = [])
   \<and> (sorted_wrt (before w) (geoList w) \<longrightarrow>
        sorted_wrt (\<lambda>a b. before w b a) (identify_hits w v coordinate options))
   \<and> (\<forall>g \<in> set (snd (identify_trace w v coordinate options)).
        containsPoint v g (coordinateToPoint v coordinate))"
proof -
  let ?hits = "filter (is_hit v options coordinate) (rev (geoList w))"
  have a: "identify w None coordinate options = Inl TypeError"
    "identify w (Some v) coordinate options = Inr (identify_hits w v coordinate options)"
    by (simp_all add: identify_def)
  have c: "identify_hits w v coordinate options = capped options ?hits"
    by (rule identify_capped)
  have 1: "opt_count options = None \<longrightarrow> identify_hits w v coordinate options = ?hits"
    by (simp add: c capped_def)
  have 2: "opt_count options = Some n \<and> 0 < n \<longrightarrow>
        identify_hits w v coordinate options = take (nat n) ?hits
        \<and> length (identify_hits w v coordinate options) \<le> nat n"
    by (simp add: c capped_def)
  have 3: "(\<forall>g \<in> set (geoList w). \<not> is_hit v options coordinate g) \<longrightarrow>
        identify_hits w v coordinate options = []"
  proof
    assume "\<forall>g \<in> set (geoList w). \<not> is_hit v options coordinate g"
    then have "?hits = []" by (simp add: filter_empty_conv)
    then show "identify_hits w v coordinate options = []"
      by (simp add: c capped_def split: option.splits)
  qed
  have 4: "sorted_wrt (before w) (geoList w) \<longrightarrow>
        sorted_wrt (\<lambda>a b. before w b a) (identify_hits w v coordinate options)"
  proof
    assume "sorted_wrt (before w) (geoList w)"
    then have "sorted_wrt (\<lambda>a b. before w b a) (rev (geoList w))"
      by (simp add: sorted_wrt_rev)
    then have "sorted_wrt (\<lambda>a b. before w b a) ?hits"
      by (rule sorted_wrt_filter)
    then show "sorted_wrt (\<lambda>a b. before w b a) (identify_hits w v coordinate options)"
      by (simp add: c capped_def split: option.splits)
  qed
  have 5: "\<forall>g \<in> set (snd (identify_trace w v coordinate options)).
        containsPoint v g (coordinateToPoint v coordinate)"
    using identify_loop_asked [of v options "coordinateToPoint v coordinate"
        "pointToContainerPoint v (coordinateToPoint v coordinate)" "rev (geoList w)" "[]" "[]"]
    by (auto simp: identify_trace_def Let_def)
  show ?thesis using a c 1 2 3 4 5 by blast
qed

lemmas identify_defs = identify_def identify_hits_def identify_trace_def open_viewport_def
  all_hits_def one_filtered_hit_def count_reached_def is_hit_def passes_def Let_def before_def

theorem identify_topmost_first_witness:
  "sorted_wrt (before layer_abc) (geoList layer_abc)
   \<and> opt_count all_hits = None
   \<and> identify layer_abc (Some open_viewport) 0 all_hits = Inr [1, 2, 0]
   \<and> sorted_wrt (\<lambda>a b. before layer_abc b a) (identify_hits layer_abc open_viewport 0 all_hits)
   \<and> opt_count one_filtered_hit = Some 1 \<and> (0 :: int) < 1
   \<and> identify layer_abc (Some open_viewport) 0 one_filtered_hit = Inr [2]
   \<and> length (identify_hits layer_abc open_viewport 0 one_filtered_hit) \<le> nat 1
   \<and> snd (identify_trace layer_abc open_viewport 0 one_filtered_hit) = [1, 2]
   \<and> geoList layer_abc = [0, 2, 1]
   \<and> \<not> is_hit (open_viewport\<lparr>containsPoint := \<lambda>g p. False\<rparr>) all_hits 0 0
   \<and> \<not> is_hit (open_viewport\<lparr>containsPoint := \<lambda>g p. False\<rparr>) all_hits 0 2
   \<and> \<not> is_hit (open_viewport\<lparr>containsPoint := \<lambda>g p. False\<rparr>) all_hits 0 1
   \<and> identify layer_abc (Some (open_viewport\<lparr>containsPoint := \<lambda>g p. False\<rparr>)) 0 all_hits
       = Inr []"
proof -
  note l = geoList_layer_abc
  have s: "sorted_wrt (before layer_abc) (geoList layer_abc)"
    unfolding l by (simp add: layer_abc_def store_defs before_def)
  have e: "opt_count all_hits = None" "opt_count one_filtered_hit = Some 1"
    "identify layer_abc (Some open_viewport) 0 all_hits = Inr [1, 2, 0]"
    "identify layer_abc (Some open_viewport) 0 one_filtered_hit = Inr [2]"
    "snd (identify_trace layer_abc open_viewport 0 one_filtered_hit) = [1, 2]"
    by (simp_all add: l identify_defs)
  have m: "\<not> is_hit (open_viewport\<lparr>containsPoint := \<lambda>g p. False\<rparr>) all_hits 0 0"
    "\<not> is_hit (open_viewport\<lparr>containsPoint := \<lambda>g p. False\<rparr>) all_hits 0 2"
    "\<not> is_hit (open_viewport\<lparr>containsPoint := \<lambda>g p. False\<rparr>) all_hits 0 1"
    by (simp_all add: identify_defs)
  have z: "(0 :: int) < 1" by simp
  note t1 = identify_topmost_first [where w = layer_abc and v = open_viewport and coordinate = 0
      and options = all_hits]
  note t2 = identify_topmost_first [where w = layer_abc and v = open_viewport and coordinate = 0
      and options = one_filtered_hit and n = 1]
  note t3 = identify_topmost_first [where w = layer_abc
      and v = "open_viewport\<lparr>containsPoint := \<lambda>g p. False\<rparr>" and coordinate = 0
      and options = all_hits]
  have "sorted_wrt (\<lambda>a b. before layer_abc b a) (identify_hits layer_abc open_viewport 0 all_hits)"
    using t1 s by blast
  moreover have "length (identify_hits layer_abc open_viewport 0 one_filtered_hit) \<le> nat 1"
    using t2 e(2) z by blast
  moreover have "identify layer_abc (Some (open_viewport\<lparr>containsPoint := \<lambda>g p. False\<rparr>)) 0 all_hits
                   = Inr []"
  proof -
    have "\<forall>g \<in> set (geoList layer_abc).
            \<not> is_hit (open_viewport\<lparr>containsPoint := \<lambda>g p. False\<rparr>) all_hits 0 g"
      using m by (simp add: l)
    with t3 have h: "identify_hits layer_abc (open_viewport\<lparr>containsPoint := \<lambda>g p. False\<rparr>)
                       0 all_hits = []"
      by blast
    from t3 have "identify layer_abc (Some (open_viewport\<lparr>containsPoint := \<lambda>g p. False\<rparr>))
                    0 all_hits
                  = Inr (identify_hits layer_abc (open_viewport\<lparr>containsPoint := \<lambda>g p. False\<rparr>)
                           0 all_hits)"
      by blast
    then show ?thesis by (simp only: h)
  qed
  ultimately show ?thesis using s e m l by simp
qed

text \<open>
  The claim as written fails in two places. A new layer is on no map and holds no
  geometry: \<open>identify\<close> throws where the claim has the empty list. And the order of
  the result is that of \<open>_geoList\<close> reversed, whatever it is: on the layer that holds
  B (z = 5) in front of A (z = 0), \<open>identify\<close> puts A first.
\<close>

theorem identify_topmost_first_counterexample:
  "geoList (new_layer example_heap) = []
   \<and> identify (new_layer example_heap) None (0 :: nat) all_hits = Inl TypeError
   \<and> geoList layer_b_a = [1, 0]
   \<and> identify layer_b_a (Some open_viewport) 0 all_hits = Inr [0, 1]
   \<and> zIndex (heap layer_b_a 0) = 0
   \<and> zIndex (heap layer_b_a 1) = 5"
proof -
  have l: "geoList layer_b_a = [1, 0]"
    by (simp add: layer_b_a_def layer_b_def store_defs)
  have z: "zIndex (heap layer_b_a 0) = 0" "zIndex (heap layer_b_a 1) = 5"
    by (simp_all add: layer_b_a_def layer_b_def store_defs)
  have i: "identify layer_b_a (Some open_viewport) 0 all_hits = Inr [0, 1]"
    by (simp add: l identify_defs)
  have n: "identify (new_layer example_heap) None (0 :: nat) all_hits = Inl TypeError"
    by (simp add: identify_def)
  show ?thesis using l z i n by (simp add: new_layer_def)
qed

section \<open>Properties of the text symbolizer\<close>

subsection \<open>Style resolution\<close>





subsection \<open>Numbers print differently\<close>

lemma of_digit_char: "d < 10 \<Longrightarrow> of_char (digit_char d) = 48 + d"
  by (simp add: digit_char_def)

lemma read_nat_snoc: "read_nat (s @ [c]) = 10 * read_nat s + (of_char c - 48)"
  by (simp add: read_nat_def)

lemma read_show_nat: "read_nat (show_nat n) = n"
proof (induction n rule: show_nat.induct)
  case (1 n)
  show ?case
  proof (cases "n < 10")
    case True
    then show ?thesis
      by (subst show_nat.simps) (simp add: read_nat_def of_digit_char)
  next
    case False
    then have "read_nat (show_nat (n div 10)) = n div 10" using 1 by simp
    then show ?thesis
      using False by (subst show_nat.simps) (simp add: read_nat_snoc of_digit_char)
  qed
qed

lemma show_nat_digits: "show_nat n \<noteq> [] \<and> CHR ''-'' \<notin> set (show_nat n)"
proof (induction n rule: show_nat.induct)
  case (1 n)
  have d: "\<And>k. k < 10 \<Longrightarrow> digit_char k \<noteq> CHR ''-''"
  proof
    fix k :: nat assume "k < 10" "digit_char k = CHR ''-''"
    then have "of_char (digit_char k) = (of_char (CHR ''-'') :: nat)" by simp
    then show False using \<open>k < 10\<close> by (simp add: of_digit_char)
  qed
  show ?case
  proof (cases "n < 10")
    case True
    then show ?thesis using d [of n] by (subst (1 2) show_nat.simps) auto
  next
    case False
    then show ?thesis using 1 d [of "n mod 10"] by (subst (1 2) show_nat.simps) auto
  qed
qed

lemma show_int_inj: "show_int a = show_int b \<Longrightarrow> a = b"
proof -
  assume e: "show_int a = show_int b"
  have neg: "\<And>i j. i < 0 \<Longrightarrow> \<not> j < 0 \<Longrightarrow> show_int i \<noteq> show_int j"
  proof
    fix i j :: int assume "i < 0" "\<not> j < 0" "show_int i = show_int j"
    then have "CHR ''-'' # show_nat (nat (- i)) = show_nat (nat j)" by (simp add: show_int_def)
    then have "CHR ''-'' \<in> set (show_nat (nat j))" by (metis list.set_intros(1))
    then show False using show_nat_digits by blast
  qed
  consider "a < 0" "b < 0" | "a < 0" "\<not> b < 0" | "\<not> a < 0" "b < 0" | "\<not> a < 0" "\<not> b < 0"
    by blast
  then show "a = b"
  proof cases
    case 1
    then have "show_nat (nat (- a)) = show_nat (nat (- b))" using e by (simp add: show_int_def)
    then have "nat (- a) = nat (- b)" by (metis read_show_nat)
    then show ?thesis using 1 by simp
  next
    case 2
    then show ?thesis using neg e by blast
  next
    case 3
    then show ?thesis using neg [of b a] e by simp
  next
    case 4
    then have "show_nat (nat a) = show_nat (nat b)" using e by (simp add: show_int_def)
    then have "nat a = nat b" by (metis read_show_nat)
    then show ?thesis using 4 by simp
  qed
qed

lemma show_int_eq_iff: "(show_int a = show_int b) = (a = b)"
  using show_int_inj by blast

subsection \<open>The cache key and the cache\<close>

lemma join_Cons: "join sep (x # xs) = x @ concat (map ((@) sep) xs)"
  by (induction xs arbitrary: x) auto

lemma genCacheKey_concat:
  "genCacheKey textContent sty =
     textContent @ concat (map (\<lambda>(p, v). ''-'' @ p @ ''='' @ to_string v)
                            (filter (\<lambda>(p, v). 4 < length p \<and> take 4 p = ''text'') sty))"
  by (simp add: genCacheKey_def join_Cons map_idI split_def comp_def)

lemma translate_textSize_split:
  "\<exists>pre post. \<forall>v. v \<noteq> Undefined \<longrightarrow> v \<noteq> Null \<longrightarrow>
      translate ((''textSize'', v) # raw) = pre @ (''textSize'', v) # post"
proof (intro exI allI impI)
  fix v assume "v \<noteq> Undefined" "v \<noteq> Null"
  then show "translate ((''textSize'', v) # raw)
     = take 4 (translate ((''textSize'', Undefined) # raw)) @ (''textSize'', v)
        # drop 5 (translate ((''textSize'', Undefined) # raw))"
    by (simp add: translate_def property_def getValueOrDefault_def isNil_def)
qed

lemma textSize_changes_key:
  assumes "a \<noteq> b"
  shows "genCacheKey textContent (translate ((''textSize'', Num a) # raw))
         \<noteq> genCacheKey textContent (translate ((''textSize'', Num b) # raw))"
proof -
  obtain pre post where
    t: "\<And>v. v \<noteq> Undefined \<Longrightarrow> v \<noteq> Null \<Longrightarrow>
          translate ((''textSize'', v) # raw) = pre @ (''textSize'', v) # post"
    using translate_textSize_split by blast
  have "show_int a \<noteq> show_int b" using assms show_int_inj by blast
  then show ?thesis
    by (simp add: genCacheKey_concat t)
qed

lemma descText_dynamic:
  "dynamic st \<Longrightarrow>
     descText env st textContent
       = st\<lparr>textDesc := Some (splitTextToRow env textContent (style st)),
            layouts := layouts st + 1\<rparr>"
  by (simp add: descText_def)

lemma descText_static:
  assumes "\<not> IS_NODE env" "\<not> dynamic st"
  shows "cached (descText env st textContent) (key_of (cacheKey st))
           = textDesc (descText env st textContent)"
    and "textDesc (descText env st textContent) \<noteq> None"
    and "k \<noteq> key_of (cacheKey st) \<Longrightarrow> cached (descText env st textContent) k = cached st k"
    and "cacheKey (descText env st textContent) = cacheKey st"
    and "dynamic (descText env st textContent) = dynamic st"
  using assms
  by (auto simp: descText_def loadFromCache_def storeToCache_def cached_def Let_def
      split: option.splits)

lemma descText_again:
  assumes "\<not> dynamic st" "textDesc st \<noteq> None" "cached st (key_of (cacheKey st)) = textDesc st"
  shows "descText env st textContent = st"
  using assms
  by (auto simp: descText_def loadFromCache_def cached_def Let_def split: option.splits)

text \<open>
  C6, as the code has it. Outside Node (\<open>IS_NODE\<close> false), for a static symbolizer:
  after a layout the descriptor is in the geometry's cache under the symbolizer's key,
  a further layout changes nothing (no call of \<open>splitTextToRow\<close>, the same
  descriptor), and entries under other keys are as they were. For a dynamic
  symbolizer the layout is computed on every call and the cache is neither read nor
  written. The constructor marks the symbolizer dynamic exactly when the symbol has a
  computed expression, and gives a static one the key made of the text and the
  \<open>text\<close>-prefixed properties of the resolved style. Two values of \<open>textSize\<close> give
  two keys.
\<close>

theorem text_cache_static_dynamic:
  "(\<not> IS_NODE env \<and> \<not> dynamic st \<longrightarrow>
      cached (descText env st textContent) (key_of (cacheKey st))
        = textDesc (descText env st textContent)
      \<and> textDesc (descText env st textContent) \<noteq> None
      \<and> descText env (descText env st textContent) textContent' = descText env st textContent
      \<and> (k \<noteq> key_of (cacheKey st) \<longrightarrow> cached (descText env st textContent) k = cached st k))
   \<and> (dynamic st \<longrightarrow>
        descText env st textContent
          = st\<lparr>textDesc := Some (splitTextToRow env textContent (style st)),
               layouts := layouts st + 1\<rparr>)
   \<and> dynamic (new_text_symbolizer env raw props cache n) = hasFunctionDefinition raw
   \<and> (\<not> hasFunctionDefinition raw \<longrightarrow>
        cacheKey (new_text_symbolizer env raw props cache n)
          = Some (genCacheKey
                    (replaceVariable env (property (defineStyle env (translate raw)) ''textName'') props)
                    (defineStyle env (translate raw))))
   \<and> (a \<noteq> b \<longrightarrow>
        genCacheKey textContent (translate ((''textSize'', Num a) # raw))
          \<noteq> genCacheKey textContent (translate ((''textSize'', Num b) # raw)))"
proof -
  have 1: "cached (descText env st textContent) (key_of (cacheKey st))
        = textDesc (descText env st textContent)
      \<and> textDesc (descText env st textContent) \<noteq> None
      \<and> descText env (descText env st textContent) textContent' = descText env st textContent
      \<and> (k \<noteq> key_of (cacheKey st) \<longrightarrow> cached (descText env st textContent) k = cached st k)"
    if h: "\<not> IS_NODE env" "\<not> dynamic st"
  proof -
    note s = descText_static [OF h]
    have "descText env (descText env st textContent) textContent' = descText env st textContent"
      using s(1,2,4,5) h by (intro descText_again) simp_all
    then show ?thesis using s(1,2,3) by simp
  qed
  have 2: "dynamic (new_text_symbolizer env raw props cache n) = hasFunctionDefinition raw"
    by (simp add: new_text_symbolizer_def Let_def descText_def loadFromCache_def storeToCache_def
        split: option.splits)
  have 3: "cacheKey (new_text_symbolizer env raw props cache n)
          = Some (genCacheKey
                    (replaceVariable env (property (defineStyle env (translate raw)) ''textName'') props)
                    (defineStyle env (translate raw)))"
    if "\<not> hasFunctionDefinition raw"
    using that
    by (simp add: new_text_symbolizer_def Let_def descText_def loadFromCache_def storeToCache_def
        split: option.splits)
  show ?thesis
    using 1 2 3 descText_dynamic [of st env textContent] textSize_changes_key [of a b textContent raw]
    by blast
qed

lemmas text_defs = new_text_symbolizer_def text_symbolize_def descText_def loadFromCache_def
  storeToCache_def cached_def hasFunctionDefinition_def browser_env_def node_env_def Let_def
  key_of_def hi_symbol_def hi_drawn_def hi_resized_def computed_drawn_def hi_node_def
  translate_def property_def getValueOrDefault_def isNil_def

theorem text_cache_static_dynamic_witness:
  "\<not> IS_NODE browser_env \<and> \<not> dynamic hi_drawn \<and> [] \<noteq> key_of (cacheKey hi_drawn)
   \<and> descText browser_env hi_drawn ''Hi'' = hi_drawn
   \<and> layouts hi_drawn = 1
   \<and> layouts (text_symbolize browser_env 1 hi_drawn) = 1
   \<and> cached hi_drawn (key_of (cacheKey hi_drawn)) = Some (''Hi'', Num 10)
   \<and> \<not> hasFunctionDefinition hi_symbol
   \<and> (10 :: int) \<noteq> 12
   \<and> genCacheKey ''Hi'' (translate ((''textSize'', Num 10) # hi_symbol))
       \<noteq> genCacheKey ''Hi'' (translate ((''textSize'', Num 12) # hi_symbol))
   \<and> layouts hi_resized = 2
   \<and> cached hi_resized (key_of (cacheKey hi_drawn)) = Some (''Hi'', Num 10)
   \<and> cached hi_resized (key_of (cacheKey hi_resized)) = Some (''Hi'', Num 12)
   \<and> dynamic computed_drawn
   \<and> layouts computed_drawn = 1
   \<and> layouts (descText browser_env computed_drawn ''x'') = 2
   \<and> text_cache (descText browser_env computed_drawn ''x'') = None"
proof -
  have h: "\<not> IS_NODE browser_env" "\<not> dynamic hi_drawn" "\<not> hasFunctionDefinition hi_symbol"
    "dynamic computed_drawn"
    by (simp_all add: text_defs)
  have k: "[] \<noteq> key_of (cacheKey hi_drawn)"
    by (simp add: text_defs genCacheKey_def)
  have d: "layouts hi_drawn = 1" "layouts (text_symbolize browser_env 1 hi_drawn) = 1"
    "cached hi_drawn (key_of (cacheKey hi_drawn)) = Some (''Hi'', Num 10)"
    "descText browser_env hi_drawn ''Hi'' = hi_drawn"
    by (simp_all add: text_defs)
  have c: "layouts computed_drawn = 1" "text_cache computed_drawn = None"
    by (simp_all add: text_defs)
  have r: "layouts hi_resized = 2"
    "cached hi_resized (key_of (cacheKey hi_drawn)) = Some (''Hi'', Num 10)"
    "cached hi_resized (key_of (cacheKey hi_resized)) = Some (''Hi'', Num 12)"
    by (simp_all add: text_defs genCacheKey_def show_int_eq_iff)
  note t1 = text_cache_static_dynamic [where env = browser_env and st = hi_drawn
      and textContent = "''Hi''" and k = "[]" and a = 10 and b = 12 and raw = hi_symbol]
  note t2 = text_cache_static_dynamic [where env = browser_env and st = computed_drawn
      and textContent = "''x''"]
  have "layouts (descText browser_env computed_drawn ''x'') = 2
        \<and> text_cache (descText browser_env computed_drawn ''x'') = None"
    using t2 h c by simp
  moreover have "genCacheKey ''Hi'' (translate ((''textSize'', Num 10) # hi_symbol))
       \<noteq> genCacheKey ''Hi'' (translate ((''textSize'', Num 12) # hi_symbol))"
    using t1 by simp
  ultimately show ?thesis
    using h k d c r by simp
qed

text \<open>
  The claim as written, for every static symbol, fails under Node, where
  \<open>_storeToCache\<close> returns at once: the symbolizer of \<open>{textName: 'Hi'}\<close> is static, its
  construction lays the text out once and stores nothing, and the layout step of
  \<open>symbolize\<close> lays it out a second time.
\<close>

theorem text_cache_static_dynamic_counterexample:
  "IS_NODE node_env
   \<and> \<not> hasFunctionDefinition hi_symbol
   \<and> \<not> dynamic hi_node
   \<and> layouts hi_node = 1
   \<and> text_cache hi_node = None
   \<and> layouts (text_symbolize node_env 1 hi_node) = 2
   \<and> text_cache (text_symbolize node_env 1 hi_node) = None"
  by (simp add: text_defs)

section \<open>Properties of the image marker symbolizer\<close>

lemma draw_points_frame:
  "globalAlpha (draw_points m w h i ps c) = globalAlpha c
   \<and> saved (draw_points m w h i ps c) = saved c
   \<and> (\<exists>new. images (draw_points m w h i ps c) = images c @ new
         \<and> length new = length ps \<and> (\<forall>d \<in> set new. fst d = globalAlpha c))"
proof (induction ps arbitrary: i c)
  case Nil
  show ?case by simp
next
  case (Cons p ps)
  obtain q where d: "draw_points m w h i (p # ps) c
      = draw_points m w h (i + 1) ps
          (if getRotationAt m i = None then canvas_image c (fst q - w / 2) (snd q - h) w h
           else ctx_restore (canvas_image (ctx_save c) (fst q - w / 2) (snd q - h) w h))"
    by (cases "getRotationAt m i") (auto simp: rotate_ctx_def)
  define c' where "c' = (if getRotationAt m i = None then canvas_image c (fst q - w / 2) (snd q - h) w h
           else ctx_restore (canvas_image (ctx_save c) (fst q - w / 2) (snd q - h) w h))"
  have d': "draw_points m w h i (p # ps) c = draw_points m w h (i + 1) ps c'"
    unfolding c'_def by (rule d)
  have c: "globalAlpha c' = globalAlpha c" "saved c' = saved c"
    "images c' = images c @ [(globalAlpha c, fst q - w / 2, snd q - h, w, h)]"
    by (simp_all add: c'_def canvas_image_def ctx_save_def ctx_restore_def)
  from Cons.IH [of "i + 1" c'] obtain new where
    n: "globalAlpha (draw_points m w h (i + 1) ps c') = globalAlpha c'"
       "saved (draw_points m w h (i + 1) ps c') = saved c'"
       "images (draw_points m w h (i + 1) ps c') = images c' @ new"
       "length new = length ps" "\<forall>d \<in> set new. fst d = globalAlpha c'"
    by blast
  have "images (draw_points m w h i (p # ps) c)
          = images c @ ((globalAlpha c, fst q - w / 2, snd q - h, w, h) # new)"
    using n c by (simp add: d' del: draw_points.simps)
  moreover have "length ((globalAlpha c, fst q - w / 2, snd q - h, w, h) # new) = length (p # ps)"
    using n by simp
  moreover have "\<forall>d \<in> set ((globalAlpha c, fst q - w / 2, snd q - h, w, h) # new). fst d = globalAlpha c"
    using n c by simp
  ultimately have "\<exists>new. images (draw_points m w h i (p # ps) c) = images c @ new
         \<and> length new = length (p # ps) \<and> (\<forall>d \<in> set new. fst d = globalAlpha c)"
    by blast
  moreover have "globalAlpha (draw_points m w h i (p # ps) c) = globalAlpha c"
    "saved (draw_points m w h i (p # ps) c) = saved c"
    using n c by (simp_all add: d' del: draw_points.simps)
  ultimately show ?case by blast
qed

text \<open>
  C9, as the code has it. When \<open>symbolize\<close> draws (no zero width, height or opacity,
  some container point, an image), the context's \<open>globalAlpha\<close> on return is the one
  \<open>_prepareContext\<close> left, which is the one saved before the scaling; one image was
  drawn per container point, and each was drawn with that alpha scaled by
  \<open>markerOpacity\<close> when the opacity is a number below 1 and the marker type is not
  \<open>path\<close>, unscaled otherwise. When it does not draw it returns the context as it
  got it. If \<open>_prepareContext\<close> leaves \<open>globalAlpha\<close> alone, \<open>globalAlpha\<close> after the
  call is what it was before.
\<close>

theorem symbolize_restores_alpha:
  "globalAlpha (fst (symbolize prepareContext m cookedPoints img c))
     = globalAlpha (if draws m cookedPoints img then prepareContext c else c)
   \<and> (\<not> draws m cookedPoints img \<longrightarrow> fst (symbolize prepareContext m cookedPoints img c) = c)
   \<and> (draws m cookedPoints img \<longrightarrow>
        (\<exists>new. images (fst (symbolize prepareContext m cookedPoints img c))
                  = images (prepareContext c) @ new
           \<and> length new = length cookedPoints
           \<and> (\<forall>d \<in> set new. fst d =
                 (if scales m then globalAlpha (prepareContext c) * the (markerOpacity (marker_style m))
                  else globalAlpha (prepareContext c)))))
   \<and> (globalAlpha (prepareContext c) = globalAlpha c
        \<longrightarrow> globalAlpha (fst (symbolize prepareContext m cookedPoints img c)) = globalAlpha c)"
proof (cases "draws m cookedPoints img")
  case False
  then have "symbolize prepareContext m cookedPoints img c = (c, marker_style m)"
    by (auto simp: symbolize_def draws_def Let_def split: option.splits)
  then show ?thesis using False by simp
next
  case True
  then obtain im where im: "img = Some im" by (auto simp: draws_def)
  obtain w h style1 where wh: "(case (markerWidth (marker_style m), markerHeight (marker_style m)) of
                       (Some w0, Some h0) \<Rightarrow> (w0, h0, marker_style m)
                     | _ \<Rightarrow>
                         (width im, height im,
                          (marker_style m)\<lparr>markerWidth := Some (width im), markerHeight := Some (height im)\<rparr>))
                = (w, h, style1)"
    using prod_cases3 by blast
  have op: "markerOpacity style1 = markerOpacity (marker_style m)"
    using wh by (auto split: option.splits)
  define c1 where "c1 = prepareContext c"
  show ?thesis
  proof (cases "scales m")
    case False
    have s: "fst (symbolize prepareContext m cookedPoints img c) = draw_points m w h 0 cookedPoints c1"
      using True False im wh op
      by (auto simp: symbolize_def draws_def scales_def Let_def c1_def)
    show ?thesis
      using draw_points_frame [of m w h 0 cookedPoints c1] True False
      unfolding s by (simp add: c1_def)
  next
    case True
    then obtain opacity where o: "markerOpacity (marker_style m) = Some opacity"
      by (auto simp: scales_def split: option.splits)
    define c2 where "c2 = c1\<lparr>globalAlpha := globalAlpha c1 * opacity\<rparr>"
    have s: "fst (symbolize prepareContext m cookedPoints img c)
               = (draw_points m w h 0 cookedPoints c2)\<lparr>globalAlpha := globalAlpha c1\<rparr>"
      using \<open>draws m cookedPoints img\<close> True im wh op o
      by (auto simp: symbolize_def draws_def scales_def Let_def c1_def c2_def)
    have c2: "globalAlpha c2 = globalAlpha c1 * opacity" "images c2 = images c1"
      by (simp_all add: c2_def)
    show ?thesis
      using draw_points_frame [of m w h 0 cookedPoints c2] True \<open>draws m cookedPoints img\<close> o
      unfolding s by (simp add: c1_def [symmetric] c2)
  qed
qed

lemmas marker_defs = symbolize_def draws_def scales_def half_marker_def plain_ctx_def Let_def
  rotate_ctx_def canvas_image_def ctx_save_def ctx_restore_def

theorem symbolize_restores_alpha_witness:
  "draws half_marker [(10, 20), (30, 40)] (Some \<lparr>width = 8, height = 6\<rparr>)
   \<and> scales half_marker
   \<and> globalAlpha ((\<lambda>c. c) plain_ctx) = globalAlpha plain_ctx
   \<and> globalAlpha (fst (symbolize (\<lambda>c. c) half_marker [(10, 20), (30, 40)]
                          (Some \<lparr>width = 8, height = 6\<rparr>) plain_ctx)) = 1
   \<and> images (fst (symbolize (\<lambda>c. c) half_marker [(10, 20), (30, 40)]
                     (Some \<lparr>width = 8, height = 6\<rparr>) plain_ctx))
       = [(1 / 2, 6, 14, 8, 6), (1 / 2, - 4, - 6, 8, 6)]
   \<and> \<not> draws half_marker [] (Some \<lparr>width = 8, height = 6\<rparr>)
   \<and> fst (symbolize (\<lambda>c. c) half_marker [] (Some \<lparr>width = 8, height = 6\<rparr>) plain_ctx) = plain_ctx"
proof -
  have d: "draws half_marker [(10, 20), (30, 40)] (Some \<lparr>width = 8, height = 6\<rparr>)"
    "scales half_marker" "\<not> draws half_marker [] (Some \<lparr>width = 8, height = 6\<rparr>)"
    by (simp_all add: marker_defs)
  have i: "images (fst (symbolize (\<lambda>c. c) half_marker [(10, 20), (30, 40)]
                     (Some \<lparr>width = 8, height = 6\<rparr>) plain_ctx))
       = [(1 / 2, 6, 14, 8, 6), (1 / 2, - 4, - 6, 8, 6)]"
    by (simp add: marker_defs)
  note t1 = symbolize_restores_alpha [where prepareContext = "\<lambda>c. c" and m = half_marker
      and cookedPoints = "[(10, 20), (30, 40)]" and img = "Some \<lparr>width = 8, height = 6\<rparr>"
      and c = plain_ctx]
  note t2 = symbolize_restores_alpha [where prepareContext = "\<lambda>c. c" and m = half_marker
      and cookedPoints = "[]" and img = "Some \<lparr>width = 8, height = 6\<rparr>" and c = plain_ctx]
  have "globalAlpha (fst (symbolize (\<lambda>c. c) half_marker [(10, 20), (30, 40)]
                          (Some \<lparr>width = 8, height = 6\<rparr>) plain_ctx)) = 1"
    using t1 d by (simp add: plain_ctx_def)
  moreover have "fst (symbolize (\<lambda>c. c) half_marker [] (Some \<lparr>width = 8, height = 6\<rparr>) plain_ctx)
                   = plain_ctx"
    using t2 d by blast
  ultimately show ?thesis using d i by simp
qed

text \<open>
  The claim as written, that \<open>globalAlpha\<close> is unchanged by any single call, fails
  when \<open>_prepareContext\<close> sets the alpha: it runs before the alpha is saved, so what
  is restored is its value. A context at 4/5 is at 1 after the call.
\<close>

theorem symbolize_restores_alpha_counterexample:
  "draws half_marker [(10, 20), (30, 40)] (Some \<lparr>width = 8, height = 6\<rparr>)
   \<and> scales half_marker
   \<and> globalAlpha faded_ctx = 4 / 5
   \<and> globalAlpha (reset_alpha faded_ctx) = 1
   \<and> globalAlpha (fst (symbolize reset_alpha half_marker [(10, 20), (30, 40)]
                          (Some \<lparr>width = 8, height = 6\<rparr>) faded_ctx)) = 1"
  by (simp add: marker_defs faded_ctx_def reset_alpha_def)

end
